theory Spec2Isabelle
  imports Main "HOL-Library.Sublist"
begin

section \<open>Shape-equivalence-class analysis of numba/array\_analysis.py\<close>

text \<open>
  A shallow embedding of the class \<open>ArrayAnalysis\<close>.  The analysis object is a record
  of its tables; every method takes the record and returns the updated one.  A Python
  exception is a value \<open>Inl e\<close>; it ends the run, as nothing in the file catches one.
  Assertions are taken as active (the interpreter's default).
\<close>

subsection \<open>Data\<close>

datatype error =
  KeyError | IndexError | AssertionError | NameError | AttributeError | ValueError

text \<open>The static types the analysis distinguishes: \<open>types.npytypes.Array\<close> with its
  \<open>ndim\<close>, \<open>types.scalars.Integer\<close>, \<open>types.containers.UniTuple\<close> with its
  \<open>count\<close>, and anything else.\<close>

datatype pytype = Array nat | Integer | UniTuple nat | OtherType

datatype pyconst = CInt int | CTuple "pyconst list" | COther

text \<open>What a size table or a tuple table holds: an \<open>ir.Var\<close> (by name) or a constant.\<close>

datatype sizeval = SVar string | SConst pyconst

text \<open>A call argument is an \<open>ir.Var\<close>; for a method call on an array the analysis
  inserts the receiver's name, a plain string, in front (line 188).  Reading \<open>.name\<close>
  of a string raises.\<close>

datatype arg = VarArg string | StrArg string

text \<open>\<open>ir.Expr\<close> by its \<open>op\<close>; variables are given by name.  \<open>ArrayExpr\<close> carries
  the names of \<open>list_vars()\<close>.\<close>

datatype expr =
    Unary string string
  | Binop string string string
  | InplaceBinop string string string
  | ArrayExpr "string list"
  | Cast string
  | Call string "string list"
  | Getattr string string
  | BuildTuple "string list"
  | StaticGetitem string nat string
  | OtherExpr string

text \<open>The value of an \<open>ir.Global\<close>: whether it is a \<open>numpy.ufunc\<close>, and its
  \<open>__name__\<close> when it has one.\<close>

datatype global_val = GlobalVal (is_ufunc: bool) (gname: "string option")

datatype node =
    Arg string
  | Var string
  | Expr expr
  | Global global_val
  | Const pyconst
  | OtherNode

text \<open>An instruction: \<open>ir.Assign(value, target)\<close> or any other statement.\<close>

datatype inst = Assign node string | OtherInst string

text \<open>The operator and ufunc tables of \<open>numba.typing.npydecl\<close> (lines 335 to 337),
  which this file only reads.\<close>

record registries =
  UNARY_MAP_OP :: "string list"
  BINARY_MAP_OP :: "string list"
  UFUNC_MAP_OP :: "string list"

text \<open>The fields of \<open>ArrayAnalysis\<close> (lines 16 to 41), with the counter behind
  \<open>mk_unique_var\<close> and the printed diagnostics.  No two entries of
  \<open>array_shape_classes\<close> share a list object: every stored list is a fresh copy
  (lines 97, 102, 320), so the table is a map to values.\<close>

record state =
  typemap :: "string \<rightharpoonup> pytype"
  calltypes :: "expr \<rightharpoonup> string option"
  next_eq_class :: int
  array_shape_classes :: "string \<rightharpoonup> int list"
  class_sizes :: "int \<rightharpoonup> sizeval list"
  array_size_vars :: "string \<rightharpoonup> sizeval list"
  numpy_globals :: "string list"
  map_calls :: "string list"
  numpy_calls :: "string \<rightharpoonup> string"
  array_attr_calls :: "string \<rightharpoonup> (string \<times> string)"
  tuple_table :: "string \<rightharpoonup> sizeval list"
  unique_var_count :: nat
  stdout :: "string list"

text \<open>The tables as \<open>__init__\<close> creates them, for a given type map.\<close>

definition init :: "(string \<rightharpoonup> pytype) \<Rightarrow> state" where
  "init tm = \<lparr> typemap = tm, calltypes = Map.empty, next_eq_class = 1,
     array_shape_classes = Map.empty,
     class_sizes = [0 \<mapsto> [SConst (CInt 1)]],
     array_size_vars = Map.empty, numpy_globals = [], map_calls = [],
     numpy_calls = Map.empty, array_attr_calls = Map.empty,
     tuple_table = Map.empty, unique_var_count = 0, stdout = [] \<rparr>"

subsection \<open>Python primitives\<close>

definition lookup :: "('k \<rightharpoonup> 'v) \<Rightarrow> 'k \<Rightarrow> error + 'v" where
  "lookup m k = (case m k of None \<Rightarrow> Inl KeyError | Some v \<Rightarrow> Inr v)"

text \<open>Reading a list at an index: an index from \<open>-len\<close> up to \<open>-1\<close> counts from the
  end, and an index outside \<open>-len .. len-1\<close> raises.\<close>

definition py_index :: "'a list \<Rightarrow> int \<Rightarrow> error + 'a" where
  "py_index xs i =
     (if 0 \<le> i \<and> i < int (length xs) then Inr (xs ! nat i)
      else if i < 0 \<and> - int (length xs) \<le> i then Inr (xs ! nat (int (length xs) + i))
      else Inl IndexError)"

definition arg_name :: "arg \<Rightarrow> error + string" where
  "arg_name a = (case a of VarArg n \<Rightarrow> Inr n | StrArg _ \<Rightarrow> Inl AttributeError)"

fun arg_names :: "arg list \<Rightarrow> error + string list" where
  "arg_names [] = Inr []"
| "arg_names (a # as) =
     (case arg_name a of Inl e \<Rightarrow> Inl e
      | Inr n \<Rightarrow> (case arg_names as of Inl e \<Rightarrow> Inl e | Inr ns \<Rightarrow> Inr (n # ns)))"

definition print :: "string \<Rightarrow> state \<Rightarrow> state" where
  "print msg st = st\<lparr>stdout := stdout st @ [msg]\<rparr>"

definition digit_char :: "nat \<Rightarrow> char" where
  "digit_char d = ''0123456789'' ! d"

function str_nat :: "nat \<Rightarrow> string" where
  "str_nat n = (if n < 10 then [digit_char n] else str_nat (n div 10) @ [digit_char (n mod 10)])"
  by pat_completeness auto
termination
  by (relation "measure id") auto

declare str_nat.simps [simp del]

text \<open>Modelled from the spec: \<open>mk_unique_var\<close> of \<open>numba.ir\_utils\<close>, which is not
  part of this file.  The spec asks for a fresh variable; the model appends a
  counter, never reused, to the prefix.\<close>

definition mk_unique_var :: "string \<Rightarrow> state \<Rightarrow> string \<times> state" where
  "mk_unique_var pfx st =
     (pfx @ ''.'' @ str_nat (unique_var_count st),
      st\<lparr>unique_var_count := unique_var_count st + 1\<rparr>)"

subsection \<open>Small methods (lines 314 to 333)\<close>

definition isarray :: "state \<Rightarrow> string \<Rightarrow> error + bool" where
  "isarray st varname =
     (case lookup (typemap st) varname of Inl e \<Rightarrow> Inl e
      | Inr t \<Rightarrow> Inr (case t of Array _ \<Rightarrow> True | _ \<Rightarrow> False))"

definition get_next_class :: "state \<Rightarrow> int \<times> state" where
  "get_next_class st = (next_eq_class st, st\<lparr>next_eq_class := next_eq_class st + 1\<rparr>)"

definition get_ndims :: "state \<Rightarrow> string \<Rightarrow> error + nat" where
  "get_ndims st arr =
     (case lookup (array_shape_classes st) arr of Inl e \<Rightarrow> Inl e
      | Inr l \<Rightarrow> Inr (length l))"

text \<open>The loop of \<open>_add_array_corr\<close> (lines 322 to 324): one fresh class per dimension,
  appended to the variable's list.\<close>

fun add_corr_loop :: "string \<Rightarrow> nat \<Rightarrow> state \<Rightarrow> error + state" where
  "add_corr_loop varname 0 st = Inr st"
| "add_corr_loop varname (Suc k) st =
     (let (new_class, st1) = get_next_class st
      in case lookup (array_shape_classes st1) varname of Inl e \<Rightarrow> Inl e
         | Inr l \<Rightarrow>
             add_corr_loop varname k
               (st1\<lparr>array_shape_classes := (array_shape_classes st1)(varname \<mapsto> l @ [new_class])\<rparr>))"

definition add_array_corr :: "string \<Rightarrow> state \<Rightarrow> error + (int list \<times> state)" where
  "add_array_corr varname st =
     (if varname \<in> dom (array_shape_classes st) then Inl AssertionError
      else
        let st1 = st\<lparr>array_shape_classes := (array_shape_classes st)(varname \<mapsto> [])\<rparr>
        in case lookup (typemap st1) varname of Inl e \<Rightarrow> Inl e
           | Inr arr_typ \<Rightarrow>
               (case arr_typ of
                  Array ndim \<Rightarrow>
                    (case add_corr_loop varname ndim st1 of Inl e \<Rightarrow> Inl e
                     | Inr st2 \<Rightarrow>
                         (case lookup (array_shape_classes st2) varname of Inl e \<Rightarrow> Inl e
                          | Inr l \<Rightarrow> Inr (l, st2)))
                | _ \<Rightarrow> Inl AttributeError))"

subsection \<open>Merging two classes (lines 266 to 279)\<close>

definition rename_class :: "int \<Rightarrow> int \<Rightarrow> int \<Rightarrow> int \<Rightarrow> int" where
  "rename_class c1 c2 new_class x = (if x = c1 \<or> x = c2 then new_class else x)"

definition pop :: "('k \<rightharpoonup> 'v) \<Rightarrow> 'k \<Rightarrow> 'v \<Rightarrow> 'v \<times> ('k \<rightharpoonup> 'v)" where
  "pop m k d = (case m k of None \<Rightarrow> (d, m) | Some v \<Rightarrow> (v, m(k := None)))"

definition merge_classes :: "int \<Rightarrow> int \<Rightarrow> state \<Rightarrow> int \<times> state" where
  "merge_classes c1 c2 st =
     (if c1 = c2 then (c1, st)
      else
        let (new_class, st1) = get_next_class st;
            shapes = (\<lambda>v. map_option (map (rename_class c1 c2 new_class))
                            (array_shape_classes st1 v));
            (l1, cs1) = pop (class_sizes st1) c1 [];
            (l2, cs2) = pop cs1 c2 []
        in (new_class,
            st1\<lparr>array_shape_classes := shapes, class_sizes := cs2(new_class \<mapsto> l1 @ l2)\<rparr>))"

subsection \<open>Classes from a shape argument (lines 251 to 264)\<close>

text \<open>The loop over \<open>range(arg_typ.count)\<close>.\<close>

fun shape_loop :: "string \<Rightarrow> nat list \<Rightarrow> int list \<Rightarrow> state \<Rightarrow> error + (int list \<times> state)" where
  "shape_loop shape_arg [] out_eqs st = Inr (out_eqs, st)"
| "shape_loop shape_arg (i # is) out_eqs st =
     (let (new_class, st1) = get_next_class st
      in case lookup (tuple_table st1) shape_arg of Inl e \<Rightarrow> Inl e
         | Inr items \<Rightarrow>
             (case py_index items (int i) of Inl e \<Rightarrow> Inl e
              | Inr item \<Rightarrow>
                  shape_loop shape_arg is (out_eqs @ [new_class])
                    (st1\<lparr>class_sizes := (class_sizes st1)(new_class \<mapsto> [item])\<rparr>)))"

text \<open>In the integer branch the right-hand side of line 256 reads \<open>args[0]\<close>, and no
  \<open>args\<close> is bound in this method: the read raises after the class was allocated.\<close>

definition get_classes_from_shape :: "string \<Rightarrow> state \<Rightarrow> error + (int list \<times> state)" where
  "get_classes_from_shape shape_arg st =
     (case lookup (typemap st) shape_arg of Inl e \<Rightarrow> Inl e
      | Inr arg_typ \<Rightarrow>
          (case arg_typ of
             Integer \<Rightarrow> (let (new_class, st1) = get_next_class st in Inl NameError)
           | UniTuple count \<Rightarrow> shape_loop shape_arg [0..<count] [] st
           | _ \<Rightarrow> Inl AssertionError))"

subsection \<open>Broadcasting (lines 281 to 312)\<close>

fun isarray_list :: "state \<Rightarrow> string list \<Rightarrow> error + bool list" where
  "isarray_list st [] = Inr []"
| "isarray_list st (a # as) =
     (case isarray st a of Inl e \<Rightarrow> Inl e
      | Inr b \<Rightarrow> (case isarray_list st as of Inl e \<Rightarrow> Inl e | Inr bs \<Rightarrow> Inr (b # bs)))"

text \<open>The loop of lines 290 to 294.  For an operand that is not an array, line 294
  assigns to the attribute \<open>append\<close> of a list, which Python refuses.\<close>

fun collect_eqs :: "state \<Rightarrow> string list \<Rightarrow> int list list \<Rightarrow> error + int list list" where
  "collect_eqs st [] eqs = Inr eqs"
| "collect_eqs st (a # as) eqs =
     (case isarray st a of Inl e \<Rightarrow> Inl e
      | Inr True \<Rightarrow>
          (case lookup (array_shape_classes st) a of Inl e \<Rightarrow> Inl e
           | Inr l \<Rightarrow> collect_eqs st as (eqs @ [l]))
      | Inr False \<Rightarrow> Inl AttributeError)"

definition max_len :: "int list list \<Rightarrow> error + nat" where
  "max_len eqs = (case eqs of [] \<Rightarrow> Inl ValueError | e # es \<Rightarrow> Inr (fold max (map length es) (length e)))"

text \<open>Lines 296 to 299: zeros are put in front until the vector has \<open>ndims\<close> entries.\<close>

definition pad :: "nat \<Rightarrow> int list \<Rightarrow> int list" where
  "pad ndims e = replicate (ndims - length e) 0 @ e"

text \<open>Lines 304 to 309, for one index \<open>i\<close>: the loop over all of \<open>eqs\<close>, the first
  operand included.  Every padded vector has \<open>ndims\<close> entries, so \<open>e ! i\<close> is in range.\<close>

fun bc_inner :: "nat \<Rightarrow> int list list \<Rightarrow> int \<Rightarrow> state \<Rightarrow> int \<times> state" where
  "bc_inner i [] c st = (c, st)"
| "bc_inner i (e # es) c st =
     (if e ! i \<noteq> 0 \<and> e ! i \<noteq> c then
        (if c = 0 then bc_inner i es (e ! i) st
         else (let (c', st') = merge_classes c (e ! i) st in bc_inner i es c' st'))
      else bc_inner i es c st)"

text \<open>Lines 302 to 310: the loop over the indices, filling \<open>out_eq\<close> from the left.\<close>

fun bc_outer :: "int list list \<Rightarrow> nat list \<Rightarrow> int list \<Rightarrow> state \<Rightarrow> int list \<times> state" where
  "bc_outer eqs [] out_eq st = (out_eq, st)"
| "bc_outer eqs (i # is) out_eq st =
     (let (c, st') = bc_inner i eqs (hd eqs ! i) st
      in bc_outer eqs is (out_eq[i := c]) st')"

definition broadcast_and_match_shapes :: "string list \<Rightarrow> state \<Rightarrow> error + (int list \<times> state)" where
  "broadcast_and_match_shapes args st =
     (case isarray_list st args of Inl e \<Rightarrow> Inl e
      | Inr bs \<Rightarrow>
          if True \<notin> set bs then Inl AssertionError
          else
            (case collect_eqs st args [] of Inl e \<Rightarrow> Inl e
             | Inr eqs0 \<Rightarrow>
                 (case max_len eqs0 of Inl e \<Rightarrow> Inl e
                  | Inr ndims \<Rightarrow>
                      Inr (bc_outer (map (pad ndims) eqs0) [0..<ndims]
                             (replicate ndims (- 1)) st))))"

subsection \<open>Named numpy calls (lines 200 to 249)\<close>

definition shape_of :: "state \<Rightarrow> string \<Rightarrow> error + int list" where
  "shape_of st name = lookup (array_shape_classes st) name"

definition arg_at :: "arg list \<Rightarrow> nat \<Rightarrow> error + string" where
  "arg_at args k =
     (case py_index args (int k) of Inl e \<Rightarrow> Inl e | Inr a \<Rightarrow> arg_name a)"

text \<open>The two loops and the last append of lines 236 to 242; each entry is read from the
  table as it is after the merge.\<close>

fun read_dims :: "state \<Rightarrow> string \<Rightarrow> nat list \<Rightarrow> int list \<Rightarrow> error + int list" where
  "read_dims st name [] c_out = Inr c_out"
| "read_dims st name (i # is) c_out =
     (case shape_of st name of Inl e \<Rightarrow> Inl e
      | Inr l \<Rightarrow>
          (case py_index l (int i) of Inl e \<Rightarrow> Inl e
           | Inr c \<Rightarrow> read_dims st name is (c_out @ [c])))"

definition dot_out :: "state \<Rightarrow> string \<Rightarrow> string \<Rightarrow> nat \<Rightarrow> nat \<Rightarrow> error + int list" where
  "dot_out st in1 in2 ndims1 ndims2 =
     (case read_dims st in1 [0..<ndims1 - 1] [] of Inl e \<Rightarrow> Inl e
      | Inr out1 \<Rightarrow>
          (case read_dims st in2 [0..<ndims2 - 2] out1 of Inl e \<Rightarrow> Inl e
           | Inr out2 \<Rightarrow>
               (if ndims2 > 1 then
                  (case shape_of st in2 of Inl e \<Rightarrow> Inl e
                   | Inr l2 \<Rightarrow>
                       (case py_index l2 (int ndims2 - 1) of Inl e \<Rightarrow> Inl e
                        | Inr c \<Rightarrow> Inr (out2 @ [c])))
                else Inr out2)))"

text \<open>Lines 226 to 232: the two classes of the contracted dimension.\<close>

definition dot_inner :: "state \<Rightarrow> string \<Rightarrow> string \<Rightarrow> nat \<Rightarrow> nat \<Rightarrow> error + (int \<times> int)" where
  "dot_inner st in1 in2 ndims1 ndims2 =
     (case shape_of st in1 of Inl e \<Rightarrow> Inl e
      | Inr l1 \<Rightarrow>
          (case py_index l1 (int ndims1 - 1) of Inl e \<Rightarrow> Inl e
           | Inr c1 \<Rightarrow>
               (case shape_of st in2 of Inl e \<Rightarrow> Inl e
                | Inr l2 \<Rightarrow>
                    (case (if ndims2 = 1 then py_index l2 0 else py_index l2 (int ndims2 - 2)) of
                       Inl e \<Rightarrow> Inl e
                     | Inr c2 \<Rightarrow> Inr (c1, c2)))))"

definition analyze_dot :: "arg list \<Rightarrow> state \<Rightarrow> error + (int list \<times> state)" where
  "analyze_dot args st =
     (if \<not> (length args = 2 \<or> length args = 3) then Inl AssertionError
      else
        (case arg_at args 0 of Inl e \<Rightarrow> Inl e
         | Inr in1 \<Rightarrow>
             (case arg_at args 1 of Inl e \<Rightarrow> Inl e
              | Inr in2 \<Rightarrow>
                  (case get_ndims st in1 of Inl e \<Rightarrow> Inl e
                   | Inr ndims1 \<Rightarrow>
                       (case get_ndims st in2 of Inl e \<Rightarrow> Inl e
                        | Inr ndims2 \<Rightarrow>
                            (case dot_inner st in1 in2 ndims1 ndims2 of Inl e \<Rightarrow> Inl e
                             | Inr (c1, c2) \<Rightarrow>
                                 (let (c_inner, st1) = merge_classes c1 c2 st
                                  in case dot_out st1 in1 in2 ndims1 ndims2 of Inl e \<Rightarrow> Inl e
                                     | Inr c_out \<Rightarrow> Inr (c_out, st1))))))))"

definition analyze_np_call ::
  "registries \<Rightarrow> string \<Rightarrow> arg list \<Rightarrow> state \<Rightarrow> error + (int list \<times> state)" where
  "analyze_np_call R call_name args st =
     (if call_name = ''transpose'' then
        (case arg_at args 0 of Inl e \<Rightarrow> Inl e
         | Inr a \<Rightarrow>
             (case shape_of st a of Inl e \<Rightarrow> Inl e | Inr l \<Rightarrow> Inr (rev l, st)))
      else if call_name \<in> set [''empty'', ''zeros'', ''ones''] then
        (case arg_at args 0 of Inl e \<Rightarrow> Inl e
         | Inr a \<Rightarrow> get_classes_from_shape a st)
      else if call_name \<in> set [''empty_like'', ''zeros_like'', ''ones_like''] then
        (case arg_at args 0 of Inl e \<Rightarrow> Inl e
         | Inr a \<Rightarrow>
             (case shape_of st a of Inl e \<Rightarrow> Inl e | Inr l \<Rightarrow> Inr (l, st)))
      else if call_name = ''reshape'' then
        (case arg_at args 1 of Inl e \<Rightarrow> Inl e
         | Inr a \<Rightarrow> get_classes_from_shape a st)
      else if call_name = ''dot'' then analyze_dot args st
      else if call_name \<in> set (UFUNC_MAP_OP R) then
        (case arg_names args of Inl e \<Rightarrow> Inl e
         | Inr names \<Rightarrow> broadcast_and_match_shapes names st)
      else Inr ([- 1], print (''unknown numpy call: '' @ call_name) st))"

subsection \<open>Shape of a right-hand side (lines 153 to 198)\<close>

definition no_rule_expr :: "string \<Rightarrow> state \<Rightarrow> error + (int list \<times> state)" where
  "no_rule_expr opname st =
     Inr ([], print ''can't find shape classes for node''
                (print (''can't find shape classes for expr of op '' @ opname) st))"

definition no_rule_node :: "state \<Rightarrow> error + (int list \<times> state)" where
  "no_rule_node st = Inr ([], print ''can't find shape classes for node'' st)"

text \<open>Lines 179 to 190.  The text \<open>''NULL''\<close> stands for no registry having the target.\<close>

definition analyze_call ::
  "registries \<Rightarrow> string \<Rightarrow> string list \<Rightarrow> state \<Rightarrow> error + (int list \<times> state)" where
  "analyze_call R func vargs st =
     (let args = map VarArg vargs in
      if func \<in> set (map_calls st) then
        (case arg_at args 0 of Inl e \<Rightarrow> Inl e
         | Inr a \<Rightarrow>
             (case shape_of st a of Inl e \<Rightarrow> Inl e | Inr l \<Rightarrow> Inr (l, st)))
      else
        (let (call_name, args') =
               (case numpy_calls st func of
                  Some n \<Rightarrow> (n, args)
                | None \<Rightarrow>
                    (case array_attr_calls st func of
                       Some (n, arr) \<Rightarrow> (n, StrArg arr # args)
                     | None \<Rightarrow> (''NULL'', args)))
         in if call_name = ''NULL'' then Inl AssertionError
            else analyze_np_call R call_name args' st))"

text \<open>The dispatch of \<open>_analyze_rhs_classes\<close>, in the order of its tests.  For an
  \<open>arrayexpr\<close> the source iterates a set of the names, in an order Python does not fix;
  the model takes the listed order with duplicates removed.  An operand of a \<open>unary\<close>
  expression is always an \<open>ir.Var\<close> here, so the assertion of line 161 holds.\<close>

fun analyze_rhs_classes :: "registries \<Rightarrow> node \<Rightarrow> state \<Rightarrow> error + (int list \<times> state)" where
  "analyze_rhs_classes R (Arg name) st =
     (case isarray st name of Inl e \<Rightarrow> Inl e
      | Inr False \<Rightarrow> Inl AssertionError
      | Inr True \<Rightarrow> add_array_corr name st)"
| "analyze_rhs_classes R (Var name) st =
     (case shape_of st name of Inl e \<Rightarrow> Inl e | Inr l \<Rightarrow> Inr (l, st))"
| "analyze_rhs_classes R (Expr (Unary fn v)) st =
     (if fn \<in> set (UNARY_MAP_OP R) then
        (case isarray st v of Inl e \<Rightarrow> Inl e
         | Inr False \<Rightarrow> Inl AssertionError
         | Inr True \<Rightarrow>
             (case shape_of st v of Inl e \<Rightarrow> Inl e | Inr l \<Rightarrow> Inr (l, st)))
      else no_rule_expr ''unary'' st)"
| "analyze_rhs_classes R (Expr (Binop fn arg1 arg2)) st =
     (if fn \<in> set (BINARY_MAP_OP R) then broadcast_and_match_shapes [arg1, arg2] st
      else no_rule_expr ''binop'' st)"
| "analyze_rhs_classes R (Expr (InplaceBinop fn arg1 arg2)) st =
     (if fn \<in> set (BINARY_MAP_OP R) then broadcast_and_match_shapes [arg1, arg2] st
      else no_rule_expr ''inplace_binop'' st)"
| "analyze_rhs_classes R (Expr (ArrayExpr vars)) st =
     broadcast_and_match_shapes (remdups vars) st"
| "analyze_rhs_classes R (Expr (Cast v)) st =
     (case shape_of st v of Inl e \<Rightarrow> Inl e | Inr l \<Rightarrow> Inr (l, st))"
| "analyze_rhs_classes R (Expr (Call func vargs)) st = analyze_call R func vargs st"
| "analyze_rhs_classes R (Expr (Getattr v attr)) st =
     (case isarray st v of Inl e \<Rightarrow> Inl e
      | Inr True \<Rightarrow>
          (if attr = ''T'' then analyze_np_call R ''transpose'' [VarArg v] st
           else no_rule_node st)
      | Inr False \<Rightarrow> no_rule_expr ''getattr'' st)"
| "analyze_rhs_classes R (Expr (BuildTuple items)) st = no_rule_expr ''build_tuple'' st"
| "analyze_rhs_classes R (Expr (StaticGetitem v i iv)) st = no_rule_expr ''static_getitem'' st"
| "analyze_rhs_classes R (Expr (OtherExpr opname)) st = no_rule_expr opname st"
| "analyze_rhs_classes R (Global g) st = no_rule_node st"
| "analyze_rhs_classes R (Const c) st = no_rule_node st"
| "analyze_rhs_classes R OtherNode st = no_rule_node st"

subsection \<open>Size calls (lines 128 to 150)\<close>

definition gen_size_call :: "string \<Rightarrow> nat \<Rightarrow> state \<Rightarrow> error + (inst list \<times> state)" where
  "gen_size_call var i st =
     (case get_ndims st var of Inl e \<Rightarrow> Inl e
      | Inr ndims \<Rightarrow>
          (let (attr_var, st1) = mk_unique_var (var @ ''_sh_attr'' @ str_nat i) st;
               st2 = st1\<lparr>typemap := (typemap st1)(attr_var \<mapsto> UniTuple ndims)\<rparr>;
               attr_assign = Assign (Expr (Getattr var ''shape'')) attr_var;
               (const_var, st3) = mk_unique_var (''$const'' @ var @ str_nat i) st2;
               st4 = st3\<lparr>typemap := (typemap st3)(const_var \<mapsto> Integer)\<rparr>;
               const_assign = Assign (Const (CInt (int i))) const_var;
               (size_var, st5) = mk_unique_var (var @ ''size'' @ str_nat i) st4;
               st6 = st5\<lparr>typemap := (typemap st5)(size_var \<mapsto> Integer)\<rparr>;
               getitem_node = StaticGetitem attr_var i const_var;
               st7 = st6\<lparr>calltypes := (calltypes st6)(getitem_node \<mapsto> None)\<rparr>;
               getitem_assign = Assign (Expr getitem_node) size_var
           in Inr ([attr_assign, const_assign, getitem_assign], st7)))"

subsection \<open>Assignments (lines 75 to 126)\<close>

text \<open>Lines 78 to 92: the auxiliary tables.\<close>

definition record_tables :: "string \<Rightarrow> node \<Rightarrow> state \<Rightarrow> error + state" where
  "record_tables lhs rhs st =
     (case rhs of
        Global g \<Rightarrow>
          (let st1 = (if is_ufunc g then st\<lparr>map_calls := map_calls st @ [lhs]\<rparr> else st)
           in case gname g of
                None \<Rightarrow> Inl AttributeError
              | Some n \<Rightarrow>
                  Inr (if n = ''numpy'' then st1\<lparr>numpy_globals := numpy_globals st1 @ [lhs]\<rparr>
                       else st1))
      | Expr (Getattr v attr) \<Rightarrow>
          (if v \<in> set (numpy_globals st) then
             Inr (st\<lparr>numpy_calls := (numpy_calls st)(lhs \<mapsto> attr)\<rparr>)
           else
             (case isarray st v of Inl e \<Rightarrow> Inl e
              | Inr True \<Rightarrow> Inr (st\<lparr>array_attr_calls := (array_attr_calls st)(lhs \<mapsto> (attr, v))\<rparr>)
              | Inr False \<Rightarrow> Inr st))
      | Expr (BuildTuple items) \<Rightarrow>
          Inr (st\<lparr>tuple_table := (tuple_table st)(lhs \<mapsto> map SVar items)\<rparr>)
      | Const (CTuple vs) \<Rightarrow>
          Inr (st\<lparr>tuple_table := (tuple_table st)(lhs \<mapsto> map SConst vs)\<rparr>)
      | _ \<Rightarrow> Inr st)"

text \<open>Lines 109 to 123: the loop over \<open>enumerate(rhs_corr)\<close>; \<open>size_step\<close> is its body
  for one dimension \<open>i\<close> of class \<open>corr\<close>.\<close>

definition set_size_var :: "string \<Rightarrow> nat \<Rightarrow> sizeval \<Rightarrow> state \<Rightarrow> error + state" where
  "set_size_var lhs i v st =
     (case lookup (array_size_vars st) lhs of Inl e \<Rightarrow> Inl e
      | Inr l \<Rightarrow>
          if i < length l then Inr (st\<lparr>array_size_vars := (array_size_vars st)(lhs \<mapsto> l[i := v])\<rparr>)
          else Inl IndexError)"

definition size_step :: "string \<Rightarrow> nat \<Rightarrow> int \<Rightarrow> state \<Rightarrow> error + (inst list \<times> state)" where
  "size_step lhs i corr st =
     (if corr = - 1 \<or> corr \<notin> dom (class_sizes st) then
        (case gen_size_call lhs i st of Inl e \<Rightarrow> Inl e
         | Inr (nodes, st1) \<Rightarrow>
             (case last nodes of
                OtherInst _ \<Rightarrow> Inl AssertionError
              | Assign _ size_var \<Rightarrow>
                  (let st2 = (if corr \<noteq> - 1
                              then st1\<lparr>class_sizes := (class_sizes st1)(corr \<mapsto> [SVar size_var])\<rparr>
                              else st1)
                   in case set_size_var lhs i (SVar size_var) st2 of Inl e \<Rightarrow> Inl e
                      | Inr st3 \<Rightarrow> Inr (nodes, st3))))
      else
        (case lookup (class_sizes st) corr of Inl e \<Rightarrow> Inl e
         | Inr reps \<Rightarrow>
             (case py_index reps 0 of Inl e \<Rightarrow> Inl e
              | Inr r \<Rightarrow>
                  (case set_size_var lhs i r st of Inl e \<Rightarrow> Inl e
                   | Inr st1 \<Rightarrow> Inr ([], st1)))))"

text \<open>The loop itself: \<open>size_calls\<close> grows by the nodes of each dimension, which are none
  when a size variable is reused.\<close>

fun size_loop ::
  "string \<Rightarrow> (nat \<times> int) list \<Rightarrow> inst list \<Rightarrow> state \<Rightarrow> error + (inst list \<times> state)" where
  "size_loop lhs [] size_calls st = Inr (size_calls, st)"
| "size_loop lhs ((i, corr) # rest) size_calls st =
     (case size_step lhs i corr st of Inl e \<Rightarrow> Inl e
      | Inr (nodes, st1) \<Rightarrow> size_loop lhs rest (size_calls @ nodes) st1)"

definition unknown_size :: sizeval where
  "unknown_size = SConst (CInt (- 1))"

text \<open>Lines 96 to 126, once the target is known to be an array.\<close>

definition record_shape :: "registries \<Rightarrow> string \<Rightarrow> node \<Rightarrow> state \<Rightarrow> error + (inst list \<times> state)" where
  "record_shape R lhs rhs st =
     (case analyze_rhs_classes R rhs st of Inl e \<Rightarrow> Inl e
      | Inr (rhs_corr, st1) \<Rightarrow>
          (case array_shape_classes st1 lhs of
             Some old \<Rightarrow>
               if old \<noteq> rhs_corr then
                 Inr ([], print ''incompatible array shapes in control flow''
                        (st1\<lparr>array_shape_classes :=
                                (array_shape_classes st1)(lhs \<mapsto> replicate (length old) (- 1)),
                              array_size_vars := (array_size_vars st1)(lhs := None)\<rparr>))
               else
                 size_loop lhs (enumerate 0 rhs_corr) []
                   (st1\<lparr>array_shape_classes := (array_shape_classes st1)(lhs \<mapsto> rhs_corr),
                         array_size_vars :=
                           (array_size_vars st1)(lhs \<mapsto> replicate (length rhs_corr) unknown_size)\<rparr>)
           | None \<Rightarrow>
               size_loop lhs (enumerate 0 rhs_corr) []
                 (st1\<lparr>array_shape_classes := (array_shape_classes st1)(lhs \<mapsto> rhs_corr),
                       array_size_vars :=
                         (array_size_vars st1)(lhs \<mapsto> replicate (length rhs_corr) unknown_size)\<rparr>)))"

definition analyze_assign :: "registries \<Rightarrow> node \<Rightarrow> string \<Rightarrow> state \<Rightarrow> error + (inst list \<times> state)" where
  "analyze_assign R rhs lhs st =
     (case record_tables lhs rhs st of Inl e \<Rightarrow> Inl e
      | Inr st1 \<Rightarrow>
          (case isarray st1 lhs of Inl e \<Rightarrow> Inl e
           | Inr False \<Rightarrow> Inr ([], st1)
           | Inr True \<Rightarrow> record_shape R lhs rhs st1))"

subsection \<open>Instructions, blocks and the run (lines 43 to 73)\<close>

fun analyze_inst :: "registries \<Rightarrow> inst \<Rightarrow> state \<Rightarrow> error + (inst list \<times> state)" where
  "analyze_inst R (Assign rhs lhs) st = analyze_assign R rhs lhs st"
| "analyze_inst R (OtherInst s) st = Inr ([], st)"

text \<open>The loop of \<open>_analyze_block\<close>: each instruction is appended to \<open>out_body\<close>,
  followed by the nodes generated for it.\<close>

fun block_loop :: "registries \<Rightarrow> inst list \<Rightarrow> inst list \<Rightarrow> state \<Rightarrow> error + (inst list \<times> state)" where
  "block_loop R [] out_body st = Inr (out_body, st)"
| "block_loop R (i # body) out_body st =
     (case analyze_inst R i st of Inl e \<Rightarrow> Inl e
      | Inr (generated_size_calls, st1) \<Rightarrow>
          block_loop R body (out_body @ [i] @ generated_size_calls) st1)"

definition analyze_block :: "registries \<Rightarrow> inst list \<Rightarrow> state \<Rightarrow> error + (inst list \<times> state)" where
  "analyze_block R body st = block_loop R body [] st"

text \<open>\<open>run\<close> visits the blocks in the order the dictionary \<open>func_ir.blocks\<close> yields
  them; every block's body is replaced by the body the analysis built.  The dumps under
  \<open>config.DEBUG_ARRAY_OPT\<close> change no table and are left out.\<close>

fun run_loop ::
  "registries \<Rightarrow> (nat \<times> inst list) list \<Rightarrow> (nat \<times> inst list) list \<Rightarrow> state
   \<Rightarrow> error + ((nat \<times> inst list) list \<times> state)" where
  "run_loop R [] done st = Inr (done, st)"
| "run_loop R ((key, body) # blocks) done st =
     (case analyze_block R body st of Inl e \<Rightarrow> Inl e
      | Inr (out_body, st1) \<Rightarrow> run_loop R blocks (done @ [(key, out_body)]) st1)"

definition run ::
  "registries \<Rightarrow> (nat \<times> inst list) list \<Rightarrow> state \<Rightarrow> error + ((nat \<times> inst list) list \<times> state)" where
  "run R blocks st = run_loop R blocks [] st"

subsection \<open>Notions used in the statements\<close>

text \<open>The representative list of a class, empty when the class has no entry: what
  \<open>self.class_sizes.pop(c, [])\<close> yields.\<close>

definition reps :: "state \<Rightarrow> int \<Rightarrow> sizeval list" where
  "reps st c = (case class_sizes st c of None \<Rightarrow> [] | Some l \<Rightarrow> l)"

text \<open>A state for the examples: three classes are allocated, each with one size variable.\<close>

definition merge_ex :: state where
  "merge_ex = (init Map.empty)\<lparr>next_eq_class := 4,
     array_shape_classes := [''A'' \<mapsto> [1, 2], ''B'' \<mapsto> [2, 3]],
     class_sizes := [0 \<mapsto> [SConst (CInt 1)], 1 \<mapsto> [SVar ''n''], 2 \<mapsto> [SVar ''k''],
                     3 \<mapsto> [SVar ''m'']]\<rparr>"

text \<open>The broadcast rule as the specification words it: the number of dimensions is the
  largest rank; every shape is padded on the left with class 0; for each index the
  candidate starts as the first operand's class and is combined with the class of every
  other operand.\<close>

definition spec_ndims :: "int list list \<Rightarrow> nat" where
  "spec_ndims shapes = Max (set (map length shapes))"

definition spec_pad :: "nat \<Rightarrow> int list \<Rightarrow> int list" where
  "spec_pad ndims s = replicate (ndims - length s) 0 @ s"

fun spec_candidate :: "int list \<Rightarrow> int \<Rightarrow> state \<Rightarrow> int \<times> state" where
  "spec_candidate [] c st = (c, st)"
| "spec_candidate (e # es) c st =
     (if e \<noteq> 0 \<and> e \<noteq> c then
        (if c = 0 then spec_candidate es e st
         else (case merge_classes c e st of (c', st') \<Rightarrow> spec_candidate es c' st'))
      else spec_candidate es c st)"

fun spec_dims :: "int list list \<Rightarrow> nat list \<Rightarrow> state \<Rightarrow> int list \<times> state" where
  "spec_dims ps [] st = ([], st)"
| "spec_dims ps (i # is) st =
     (case spec_candidate (map (\<lambda>e. e ! i) (tl ps)) (hd ps ! i) st of
        (c, st1) \<Rightarrow> (case spec_dims ps is st1 of (cs, st2) \<Rightarrow> (c # cs, st2)))"

definition spec_broadcast :: "int list list \<Rightarrow> state \<Rightarrow> int list \<times> state" where
  "spec_broadcast shapes st =
     spec_dims (map (spec_pad (spec_ndims shapes)) shapes) [0..<spec_ndims shapes] st"

definition recorded_arrays :: "state \<Rightarrow> string list \<Rightarrow> bool" where
  "recorded_arrays st args \<longleftrightarrow>
     list_all (\<lambda>a. (case typemap st a of Some (Array n) \<Rightarrow> True | _ \<Rightarrow> False) \<and>
                   array_shape_classes st a \<noteq> None) args"

text \<open>A state with four recorded arrays, for the broadcast examples.\<close>

definition bc_ex :: state where
  "bc_ex = (init [''A'' \<mapsto> Array 2, ''B'' \<mapsto> Array 2, ''P'' \<mapsto> Array 2, ''Q'' \<mapsto> Array 1])
     \<lparr>next_eq_class := 6,
      array_shape_classes := [''A'' \<mapsto> [1, 0], ''B'' \<mapsto> [0, 2], ''P'' \<mapsto> [3, 4], ''Q'' \<mapsto> [5]]\<rparr>"

text \<open>Operator and ufunc tables for the examples.\<close>

definition np_regs :: registries where
  "np_regs = \<lparr>UNARY_MAP_OP = [''-''], BINARY_MAP_OP = [''+'', ''*''], UFUNC_MAP_OP = [''add'', ''sin'']\<rparr>"

text \<open>The class of the second operand that \<open>dot\<close> contracts: its only one for rank 1,
  else its second to last.\<close>

definition dot_c2 :: "int list \<Rightarrow> int" where
  "dot_c2 l2 = (if length l2 = 1 then l2 ! 0 else l2 ! (length l2 - 2))"

text \<open>A state where \<open>a\<close> and \<open>b\<close> already share the class of their first dimension, as
  after \<open>dot(a.T, b)\<close>; \<open>c\<close> and \<open>d\<close> share nothing.\<close>

definition dot_ex :: state where
  "dot_ex = (init [''a'' \<mapsto> Array 2, ''b'' \<mapsto> Array 2])
     \<lparr>next_eq_class := 6,
      array_shape_classes := [''a'' \<mapsto> [5, 2], ''b'' \<mapsto> [5, 4], ''c'' \<mapsto> [1, 2], ''d'' \<mapsto> [3, 4]]\<rparr>"

text \<open>States and programs for the examples: an array \<open>a\<close> and a scalar \<open>s\<close>; a scalar
  \<open>n\<close> and a tuple \<open>t\<close> of two size variables.\<close>

definition uf_ex :: state where
  "uf_ex = (init [''a'' \<mapsto> Array 1, ''s'' \<mapsto> Integer])
     \<lparr>next_eq_class := 2, array_shape_classes := [''a'' \<mapsto> [1]]\<rparr>"

definition shape_ex :: state where
  "shape_ex = (init [''n'' \<mapsto> Integer, ''t'' \<mapsto> UniTuple 2])
     \<lparr>tuple_table := [''t'' \<mapsto> [SVar ''p'', SVar ''q'']]\<rparr>"

text \<open>The names that lines 202 to 215 give a rule of their own.\<close>

definition named_rules :: "string list" where
  "named_rules = [''transpose'', ''empty'', ''zeros'', ''ones'', ''empty_like'', ''zeros_like'',
     ''ones_like'', ''reshape'', ''dot'']"

definition call_ex_types :: "string \<rightharpoonup> pytype" where
  "call_ex_types = [''a'' \<mapsto> Array 1, ''np'' \<mapsto> OtherType, ''f'' \<mapsto> OtherType,
     ''g'' \<mapsto> OtherType, ''x'' \<mapsto> Array 1, ''y'' \<mapsto> Array 1]"

definition unregistered_prog :: "(nat \<times> inst list) list" where
  "unregistered_prog = [(0, [Assign (Arg ''a'') ''a'', Assign (Expr (Call ''g'' [''a''])) ''x''])]"

definition unknown_call_prog :: "inst list" where
  "unknown_call_prog =
     [Assign (Arg ''a'') ''a'',
      Assign (Global (GlobalVal False (Some ''numpy''))) ''np'',
      Assign (Expr (Getattr ''np'' ''foo'')) ''f'',
      Assign (Expr (Call ''f'' [''a''])) ''x'']"

definition merge_unknown_prog :: "inst list" where
  "merge_unknown_prog = unknown_call_prog @ [Assign (Expr (Binop ''+'' ''x'' ''a'')) ''y'']"

definition shape_after :: "error + ((nat \<times> inst list) list \<times> state) \<Rightarrow> string \<Rightarrow> error + int list option" where
  "shape_after r v = map_sum id (\<lambda>res. array_shape_classes (snd res) v) r"

definition unsupported_ex :: state where
  "unsupported_ex = (init call_ex_types)
     \<lparr>numpy_calls := [''f'' \<mapsto> ''foo''], array_attr_calls := [''h'' \<mapsto> (''sum'', ''a'')]\<rparr>"

text \<open>The three instructions of one size call: read \<open>shape\<close> of the array, make the
  constant \<open>i\<close>, and bind element \<open>i\<close> of the shape to the size variable.\<close>

definition size_nodes :: "string \<Rightarrow> nat \<Rightarrow> string \<Rightarrow> string \<Rightarrow> string \<Rightarrow> inst list" where
  "size_nodes arr i attr_var const_var size_var =
     [Assign (Expr (Getattr arr ''shape'')) attr_var,
      Assign (Const (CInt (int i))) const_var,
      Assign (Expr (StaticGetitem attr_var i const_var)) size_var]"

text \<open>A variable to which the type map gives a type that is no array type.\<close>

definition non_array :: "pytype option \<Rightarrow> bool" where
  "non_array t = (case t of Some (Array n) \<Rightarrow> False | Some _ \<Rightarrow> True | None \<Rightarrow> False)"

text \<open>When the walk over the inferred shape reaches dimension \<open>i\<close>, its class has no
  size-table entry if it had none before the assignment and does not occur at an
  earlier dimension (whose step has recorded it).  \<open>dim_result\<close> says what the walk
  does at dimension \<open>i\<close>: \<open>g\<close> are the instructions emitted for it, \<open>v\<close> is the size
  variable stored for it, \<open>cs0\<close> and \<open>cs'\<close> are the size table before and after.\<close>

definition needs_size_call :: "(int \<rightharpoonup> sizeval list) \<Rightarrow> int list \<Rightarrow> nat \<Rightarrow> bool" where
  "needs_size_call cs0 corrs i \<longleftrightarrow>
     corrs ! i = - 1 \<or> (corrs ! i \<notin> dom cs0 \<and> corrs ! i \<notin> set (take i corrs))"

definition dim_result ::
  "string \<Rightarrow> (int \<rightharpoonup> sizeval list) \<Rightarrow> (int \<rightharpoonup> sizeval list) \<Rightarrow> int list \<Rightarrow> nat \<Rightarrow> nat
   \<Rightarrow> inst list \<Rightarrow> sizeval \<Rightarrow> bool" where
  "dim_result lhs cs0 cs' corrs i idx g v \<longleftrightarrow>
     (if needs_size_call cs0 corrs i
      then (\<exists>a c s. g = size_nodes lhs idx a c s \<and> v = SVar s \<and>
                    (corrs ! i = - 1 \<or> cs' (corrs ! i) = Some [SVar s]))
      else g = [] \<and> (\<exists>r rs. cs' (corrs ! i) = Some (r # rs) \<and> v = r) \<and>
           (corrs ! i \<in> dom cs0 \<longrightarrow> cs' (corrs ! i) = cs0 (corrs ! i)))"

definition loop_post ::
  "string \<Rightarrow> state \<Rightarrow> sizeval list \<Rightarrow> nat \<Rightarrow> int list \<Rightarrow> inst list list \<Rightarrow> state \<Rightarrow> bool" where
  "loop_post lhs st sv k corrs gens st' \<longleftrightarrow>
     length gens = length corrs \<and>
     array_shape_classes st' = array_shape_classes st \<and>
     typemap st' lhs = typemap st lhs \<and>
     (\<forall>x. non_array (typemap st x) \<longrightarrow> non_array (typemap st' x)) \<and>
     (\<exists>sv'. array_size_vars st' lhs = Some sv' \<and> length sv' = length sv \<and>
            (\<forall>j < k. sv' ! j = sv ! j) \<and>
            (\<forall>i < length corrs.
               dim_result lhs (class_sizes st) (class_sizes st') corrs i (k + i) (gens ! i)
                 (sv' ! (k + i)))) \<and>
     (\<forall>c. c = - 1 \<or> c \<in> dom (class_sizes st) \<or> c \<notin> set corrs
          \<longrightarrow> class_sizes st' c = class_sizes st c)"

text \<open>Line 123 reads the first representative of an entry: the walk goes through when
  no class of the shape has an empty entry.\<close>

definition reps_nonempty :: "state \<Rightarrow> int list \<Rightarrow> bool" where
  "reps_nonempty st corrs = list_all (\<lambda>c. c = - 1 \<or> class_sizes st c \<noteq> Some []) corrs"

definition recorded :: "state \<Rightarrow> string \<Rightarrow> int list \<Rightarrow> state" where
  "recorded st lhs corrs =
     st\<lparr>array_shape_classes := (array_shape_classes st)(lhs \<mapsto> corrs),
        array_size_vars := (array_size_vars st)(lhs \<mapsto> replicate (length corrs) unknown_size)\<rparr>"

definition size_ex :: state where
  "size_ex = (init [''v'' \<mapsto> Array 4, ''a'' \<mapsto> Array 4])
     \<lparr>next_eq_class := 6,
      array_shape_classes := [''a'' \<mapsto> [1, 5, 5, - 1]],
      class_sizes := [0 \<mapsto> [SConst (CInt 1)], 1 \<mapsto> [SVar ''n'']]\<rparr>"






text \<open>What \<open>_analyze_inst\<close> returns for each instruction of a block in turn, and the body
  in which every instruction is followed by the instructions generated for it.
  \<open>passes_through\<close> holds for an instruction that is no assignment, and for an
  assignment whose target has a type that is no array type.\<close>

fun block_trace :: "registries \<Rightarrow> inst list \<Rightarrow> state \<Rightarrow> error + (inst list list \<times> state)" where
  "block_trace R [] st = Inr ([], st)"
| "block_trace R (i # body) st =
     (case analyze_inst R i st of Inl e \<Rightarrow> Inl e
      | Inr (g, st1) \<Rightarrow>
          (case block_trace R body st1 of Inl e \<Rightarrow> Inl e
           | Inr (gs, st2) \<Rightarrow> Inr (g # gs, st2)))"

definition interleave :: "inst list \<Rightarrow> inst list list \<Rightarrow> inst list" where
  "interleave body gens = concat (map2 (\<lambda>i g. i # g) body gens)"

definition passes_through :: "state \<Rightarrow> inst \<Rightarrow> bool" where
  "passes_through st i =
     (case i of OtherInst _ \<Rightarrow> True | Assign rhs lhs \<Rightarrow> non_array (typemap st lhs))"

definition block_types :: "string \<rightharpoonup> pytype" where
  "block_types = [''a'' \<mapsto> Array 1, ''n'' \<mapsto> Integer]"

definition block_ex :: "inst list" where
  "block_ex = [Assign (Arg ''a'') ''a'', OtherInst ''return'', Assign (Const (CInt 3)) ''n'']"

text \<open>A state in which \<open>x\<close> has an unknown dimension.\<close>

definition neg_ex :: state where
  "neg_ex = (init [''x'' \<mapsto> Array 1, ''a'' \<mapsto> Array 1])
     \<lparr>next_eq_class := 2,
      array_shape_classes := [''x'' \<mapsto> [- 1], ''a'' \<mapsto> [1]],
      class_sizes := [0 \<mapsto> [SConst (CInt 1)], 1 \<mapsto> [SVar ''n'']]\<rparr>"

text \<open>The part of the rule for class \<open>-1\<close> that the code keeps: the counter is positive
  and \<open>-1\<close> has no size-table entry.\<close>

definition unknown_unbacked :: "state \<Rightarrow> bool" where
  "unknown_unbacked st \<longleftrightarrow> 0 < next_eq_class st \<and> class_sizes st (- 1) = None"

text \<open>The program \<open>a = arg; at = a.T\<close>, and the assignment \<open>c = a + at\<close> that follows
  it; \<open>table_after\<close> reads a table of the state a run ends in.\<close>

definition transpose_types :: "string \<rightharpoonup> pytype" where
  "transpose_types = [''a'' \<mapsto> Array 2, ''at'' \<mapsto> Array 2, ''c'' \<mapsto> Array 2]"

definition transpose_prog :: "inst list" where
  "transpose_prog =
     [Assign (Arg ''a'') ''a'',
      Assign (Expr (Getattr ''a'' ''T'')) ''at'']"

definition add_transpose :: inst where
  "add_transpose = Assign (Expr (Binop ''+'' ''a'' ''at'')) ''c''"

definition table_after ::
  "error + ('a \<times> state) \<Rightarrow> (state \<Rightarrow> 'b) \<Rightarrow> error + 'b" where
  "table_after r f = map_sum id (\<lambda>res. f (snd res)) r"

text \<open>The right-hand sides for which \<open>_analyze_rhs_classes\<close> reaches one of its two
  fallbacks (lines 195 to 198): an operator outside the operator tables, an attribute
  other than \<open>T\<close> of an array, any attribute of a variable of another type, a tuple
  construction, a static index access, any other operation, and every node that is
  neither an argument, a variable nor an expression.  \<open>named_global\<close> excludes a global
  whose value has no \<open>__name__\<close>, which line 82 cannot read.\<close>

fun has_no_rule :: "registries \<Rightarrow> state \<Rightarrow> node \<Rightarrow> bool" where
  "has_no_rule R st (Expr (Unary fn v)) = (fn \<notin> set (UNARY_MAP_OP R))"
| "has_no_rule R st (Expr (Binop fn a b)) = (fn \<notin> set (BINARY_MAP_OP R))"
| "has_no_rule R st (Expr (InplaceBinop fn a b)) = (fn \<notin> set (BINARY_MAP_OP R))"
| "has_no_rule R st (Expr (Getattr v attr)) =
     (case typemap st v of None \<Rightarrow> False | Some (Array n) \<Rightarrow> attr \<noteq> ''T'' | Some _ \<Rightarrow> True)"
| "has_no_rule R st (Expr (BuildTuple items)) = True"
| "has_no_rule R st (Expr (StaticGetitem v i iv)) = True"
| "has_no_rule R st (Expr (OtherExpr opname)) = True"
| "has_no_rule R st (Expr (ArrayExpr vars)) = False"
| "has_no_rule R st (Expr (Cast v)) = False"
| "has_no_rule R st (Expr (Call func vargs)) = False"
| "has_no_rule R st (Global g) = True"
| "has_no_rule R st (Const c) = True"
| "has_no_rule R st OtherNode = True"
| "has_no_rule R st (Arg name) = False"
| "has_no_rule R st (Var name) = False"

definition named_global :: "node \<Rightarrow> bool" where
  "named_global rhs = (case rhs of Global g \<Rightarrow> gname g \<noteq> None | _ \<Rightarrow> True)"

text \<open>The shape recorded for a variable, empty when there is none.\<close>

definition recorded_shape :: "state \<Rightarrow> string \<Rightarrow> int list" where
  "recorded_shape st v = (case array_shape_classes st v of None \<Rightarrow> [] | Some l \<Rightarrow> l)"

text \<open>A call target that no registry holds; a call target that the numpy-call or the
  array-method registry holds under \<open>name\<close> and that is no map call; a name with no
  rule of its own that is no ufunc.\<close>

definition unregistered :: "state \<Rightarrow> string \<Rightarrow> bool" where
  "unregistered st func \<longleftrightarrow>
     func \<notin> set (map_calls st) \<and> numpy_calls st func = None \<and> array_attr_calls st func = None"

definition registered_as :: "state \<Rightarrow> string \<Rightarrow> string \<Rightarrow> bool" where
  "registered_as st func name \<longleftrightarrow>
     func \<notin> set (map_calls st) \<and>
     (numpy_calls st func = Some name \<or>
      (numpy_calls st func = None \<and> map_option fst (array_attr_calls st func) = Some name))"

definition unknown_name :: "registries \<Rightarrow> string \<Rightarrow> bool" where
  "unknown_name R name \<longleftrightarrow>
     name \<notin> set named_rules \<and> name \<notin> set (UFUNC_MAP_OP R) \<and> name \<noteq> ''NULL''"

text \<open>The scan going on after instruction \<open>i\<close>, for which \<open>g\<close> was generated: the rest
  of the block is analysed from the state \<open>st'\<close> that \<open>i\<close> left.\<close>

definition then_scan ::
  "registries \<Rightarrow> inst \<Rightarrow> inst list \<Rightarrow> inst list \<Rightarrow> state \<Rightarrow> error + (inst list \<times> state)" where
  "then_scan R i g body st' =
     (case analyze_block R body st' of Inl e \<Rightarrow> Inl e
      | Inr (out, st'') \<Rightarrow> Inr (i # g @ out, st''))"

section \<open>Properties\<close>

subsection \<open>Merging\<close>

lemma merge_same: "merge_classes c c st = (c, st)"
  by (simp add: merge_classes_def)

lemma pop_eq: "pop m k d = ((case m k of None \<Rightarrow> d | Some v \<Rightarrow> v), m(k := None))"
  by (auto simp: pop_def split: option.splits)

lemma merge_diff:
  assumes "c1 \<noteq> c2"
  shows "merge_classes c1 c2 st =
     (next_eq_class st,
      st\<lparr>next_eq_class := next_eq_class st + 1,
         array_shape_classes :=
           (\<lambda>v. map_option (map (rename_class c1 c2 (next_eq_class st))) (array_shape_classes st v)),
         class_sizes :=
           ((class_sizes st)(c1 := None, c2 := None))(next_eq_class st \<mapsto> reps st c1 @ reps st c2)\<rparr>)"
  using assms
  by (simp add: merge_classes_def get_next_class_def reps_def pop_eq Let_def)

lemma rename_not_old:
  "n \<noteq> c1 \<Longrightarrow> n \<noteq> c2 \<Longrightarrow> rename_class c1 c2 n x \<noteq> c1 \<and> rename_class c1 c2 n x \<noteq> c2"
  by (simp add: rename_class_def)

text \<open>
  C2.  Merging a class with itself returns it and leaves the state as it is.  Merging two
  different classes \<open>c1\<close>, \<open>c2\<close> (both allocated, that is below the counter) returns
  the counter's value \<open>c3\<close> as the new class; afterwards every recorded shape vector
  has its old length, holds \<open>c3\<close> where it held \<open>c1\<close> or \<open>c2\<close>, is unchanged
  elsewhere and contains neither \<open>c1\<close> nor \<open>c2\<close>; the size table maps \<open>c3\<close> to the
  list of \<open>c1\<close> followed by the list of \<open>c2\<close>, has no entry for \<open>c1\<close> or \<open>c2\<close> and
  is unchanged at every other class.  Merges are transitive: after merging \<open>a\<close> with \<open>b\<close>
  and the result with \<open>c'\<close>, every entry that was \<open>a\<close>, \<open>b\<close> or \<open>c'\<close> is the final
  class, whose list holds every entry of the three original lists.
\<close>

theorem merge_classes_spec:
  "merge_classes c c st = (c, st) \<and>
   (c1 \<noteq> c2 \<longrightarrow> c1 < next_eq_class st \<longrightarrow> c2 < next_eq_class st \<longrightarrow>
     (case merge_classes c1 c2 st of (c3, st') \<Rightarrow>
        c3 = next_eq_class st \<and> next_eq_class st' = c3 + 1 \<and>
        dom (array_shape_classes st') = dom (array_shape_classes st) \<and>
        (\<forall>v l. array_shape_classes st v = Some l \<longrightarrow>
           (\<exists>l'. array_shape_classes st' v = Some l' \<and> length l' = length l \<and>
                 c1 \<notin> set l' \<and> c2 \<notin> set l' \<and>
                 (\<forall>i < length l. l' ! i = (if l ! i = c1 \<or> l ! i = c2 then c3 else l ! i)))) \<and>
        class_sizes st' c3 = Some (reps st c1 @ reps st c2) \<and>
        class_sizes st' c1 = None \<and> class_sizes st' c2 = None \<and>
        (\<forall>c. c \<noteq> c1 \<and> c \<noteq> c2 \<and> c \<noteq> c3 \<longrightarrow> class_sizes st' c = class_sizes st c))) \<and>
   (a < next_eq_class st \<longrightarrow> b < next_eq_class st \<longrightarrow> c' < next_eq_class st \<longrightarrow>
     (case merge_classes a b st of (d, st1) \<Rightarrow>
        case merge_classes d c' st1 of (f, st2) \<Rightarrow>
          (\<forall>v l. array_shape_classes st v = Some l \<longrightarrow>
             (\<exists>l'. array_shape_classes st2 v = Some l' \<and> length l' = length l \<and>
                   (\<forall>i < length l. l ! i = a \<or> l ! i = b \<or> l ! i = c' \<longrightarrow> l' ! i = f))) \<and>
          set (reps st a) \<union> set (reps st b) \<union> set (reps st c') \<subseteq> set (reps st2 f)))"
proof (intro conjI impI)
  show "merge_classes c c st = (c, st)" by (rule merge_same)
next
  assume d: "c1 \<noteq> c2" and f1: "c1 < next_eq_class st" and f2: "c2 < next_eq_class st"
  have n1: "next_eq_class st \<noteq> c1" and n2: "next_eq_class st \<noteq> c2" using f1 f2 by auto
  show "case merge_classes c1 c2 st of (c3, st') \<Rightarrow>
        c3 = next_eq_class st \<and> next_eq_class st' = c3 + 1 \<and>
        dom (array_shape_classes st') = dom (array_shape_classes st) \<and>
        (\<forall>v l. array_shape_classes st v = Some l \<longrightarrow>
           (\<exists>l'. array_shape_classes st' v = Some l' \<and> length l' = length l \<and>
                 c1 \<notin> set l' \<and> c2 \<notin> set l' \<and>
                 (\<forall>i < length l. l' ! i = (if l ! i = c1 \<or> l ! i = c2 then c3 else l ! i)))) \<and>
        class_sizes st' c3 = Some (reps st c1 @ reps st c2) \<and>
        class_sizes st' c1 = None \<and> class_sizes st' c2 = None \<and>
        (\<forall>c. c \<noteq> c1 \<and> c \<noteq> c2 \<and> c \<noteq> c3 \<longrightarrow> class_sizes st' c = class_sizes st c)"
    using d n1 n2 rename_not_old[OF n1 n2]
    by (auto simp: merge_diff dom_def rename_class_def)
next
  assume fa: "a < next_eq_class st" and fb: "b < next_eq_class st" and fc: "c' < next_eq_class st"
  show "case merge_classes a b st of (d, st1) \<Rightarrow>
        case merge_classes d c' st1 of (f, st2) \<Rightarrow>
          (\<forall>v l. array_shape_classes st v = Some l \<longrightarrow>
             (\<exists>l'. array_shape_classes st2 v = Some l' \<and> length l' = length l \<and>
                   (\<forall>i < length l. l ! i = a \<or> l ! i = b \<or> l ! i = c' \<longrightarrow> l' ! i = f))) \<and>
          set (reps st a) \<union> set (reps st b) \<union> set (reps st c') \<subseteq> set (reps st2 f)"
  proof (cases "a = b")
    case True
    show ?thesis
    proof (cases "b = c'")
      case True
      with \<open>a = b\<close> show ?thesis by (simp add: merge_same)
    next
      case False
      with \<open>a = b\<close> fb fc show ?thesis
        by (auto simp: merge_same merge_diff rename_class_def reps_def)
    qed
  next
    case False
    have "next_eq_class st \<noteq> c'" using fc by simp
    with False fa fb fc show ?thesis
      by (auto simp: merge_diff rename_class_def reps_def split: option.splits)
  qed
qed

theorem merge_classes_spec_witness:
  "(1::int) \<noteq> 2 \<and> 1 < next_eq_class merge_ex \<and> 2 < next_eq_class merge_ex \<and>
   3 < next_eq_class merge_ex \<and>
   merge_classes 1 1 merge_ex = (1, merge_ex) \<and>
   fst (merge_classes 1 2 merge_ex) = 4 \<and>
   array_shape_classes (snd (merge_classes 1 2 merge_ex)) ''A'' = Some [4, 4] \<and>
   array_shape_classes (snd (merge_classes 1 2 merge_ex)) ''B'' = Some [4, 3] \<and>
   class_sizes (snd (merge_classes 1 2 merge_ex)) 4 = Some [SVar ''n'', SVar ''k''] \<and>
   class_sizes (snd (merge_classes 1 2 merge_ex)) 1 = None \<and>
   class_sizes (snd (merge_classes 1 2 merge_ex)) 2 = None \<and>
   fst (merge_classes 4 3 (snd (merge_classes 1 2 merge_ex))) = 5 \<and>
   array_shape_classes (snd (merge_classes 4 3 (snd (merge_classes 1 2 merge_ex)))) ''B''
     = Some [5, 5] \<and>
   reps (snd (merge_classes 4 3 (snd (merge_classes 1 2 merge_ex)))) 5
     = [SVar ''n'', SVar ''k'', SVar ''m'']"
  using merge_classes_spec [of 1 merge_ex 1 2 1 2 3]
  by (simp add: merge_ex_def init_def merge_diff reps_def rename_class_def)

subsection \<open>Broadcasting\<close>

lemma isarray_list_all:
  "recorded_arrays st args \<Longrightarrow> isarray_list st args = Inr (replicate (length args) True)"
  by (induction args)
     (auto simp: recorded_arrays_def isarray_def lookup_def split: option.splits pytype.splits)

lemma collect_eqs_all:
  "recorded_arrays st args \<Longrightarrow>
   collect_eqs st args eqs = Inr (eqs @ map (\<lambda>a. the (array_shape_classes st a)) args)"
  by (induction args arbitrary: eqs)
     (auto simp: recorded_arrays_def isarray_def lookup_def split: option.splits pytype.splits)

lemma max_len_eq:
  assumes "eqs \<noteq> []"
  shows "max_len eqs = Inr (spec_ndims eqs)"
proof (cases eqs)
  case Nil
  then show ?thesis using assms by simp
next
  case (Cons e es)
  have "Max (set (length e # map length es)) = fold max (map length es) (length e)"
    by (rule Max.set_eq_fold)
  then show ?thesis using Cons by (simp add: max_len_def spec_ndims_def)
qed

lemma bc_inner_candidate:
  "bc_inner i es c st = spec_candidate (map (\<lambda>e. e ! i) es) c st"
  by (induction es arbitrary: c st) (auto split: prod.splits)

lemma bc_inner_first:
  "eqs \<noteq> [] \<Longrightarrow> bc_inner i eqs (hd eqs ! i) st
     = spec_candidate (map (\<lambda>e. e ! i) (tl eqs)) (hd eqs ! i) st"
  by (cases eqs) (simp_all add: bc_inner_candidate)

lemma bc_outer_dims:
  assumes "eqs \<noteq> []"
  shows "k \<le> n \<Longrightarrow> length out = n \<Longrightarrow>
     bc_outer eqs [k..<n] out st
       = (case spec_dims eqs [k..<n] st of (cs, st') \<Rightarrow> (take k out @ cs, st'))"
proof (induction "n - k" arbitrary: k out st)
  case 0
  then show ?case by simp
next
  case (Suc d)
  then have lt: "k < n" by simp
  have u: "[k..<n] = k # [Suc k..<n]" using lt by (simp add: upt_conv_Cons)
  obtain c st1 where c: "spec_candidate (map (\<lambda>e. e ! k) (tl eqs)) (hd eqs ! k) st = (c, st1)"
    by (cases "spec_candidate (map (\<lambda>e. e ! k) (tl eqs)) (hd eqs ! k) st")
  have ih: "bc_outer eqs [Suc k..<n] (out[k := c]) st1
       = (case spec_dims eqs [Suc k..<n] st1 of (cs, st') \<Rightarrow> (take (Suc k) (out[k := c]) @ cs, st'))"
    using Suc by (intro Suc.hyps(1)) auto
  have t: "take (Suc k) (out[k := c]) = take k out @ [c]"
    using lt Suc.prems by (simp add: take_Suc_conv_app_nth)
  show ?case
    by (simp add: u bc_inner_first[OF assms] c ih t split: prod.splits)
qed

lemma pad_spec: "pad = spec_pad"
  by (intro ext) (simp add: pad_def spec_pad_def)

lemma length_spec_dims: "spec_dims ps is st = (cs, st') \<Longrightarrow> length cs = length is"
  by (induction "is" arbitrary: st cs st') (auto split: prod.splits)

lemma broadcast_refines:
  assumes "args \<noteq> []" "recorded_arrays st args"
  shows "broadcast_and_match_shapes args st
     = Inr (spec_broadcast (map (\<lambda>a. the (array_shape_classes st a)) args) st)"
proof -
  define shapes where "shapes = map (\<lambda>a. the (array_shape_classes st a)) args"
  define n where "n = spec_ndims shapes"
  define ps where "ps = map (pad n) shapes"
  have ne: "shapes \<noteq> []" using assms(1) by (simp add: shapes_def)
  have ne2: "ps \<noteq> []" using ne by (simp add: ps_def)
  have t: "True \<in> set (replicate (length args) True)" using assms(1) by simp
  have c: "collect_eqs st args [] = Inr shapes"
    by (simp add: collect_eqs_all[OF assms(2)] shapes_def)
  have o: "bc_outer ps [0..<n] (replicate n (- 1)) st = spec_dims ps [0..<n] st"
    using bc_outer_dims[OF ne2, of 0 n "replicate n (- 1)" st] by (simp split: prod.splits)
  have b: "broadcast_and_match_shapes args st = Inr (bc_outer ps [0..<n] (replicate n (- 1)) st)"
    unfolding broadcast_and_match_shapes_def isarray_list_all[OF assms(2)] c
    using t by (simp add: max_len_eq[OF ne] ps_def n_def)
  have s: "spec_broadcast shapes st = spec_dims ps [0..<n] st"
    by (simp add: spec_broadcast_def ps_def n_def pad_spec)
  show ?thesis
    unfolding shapes_def[symmetric] b o s ..
qed


lemma spec_ndims_two: "spec_ndims [[a, b], [c, d]] = 2"
  by (simp add: spec_ndims_def)

lemma upt_two: "[0..<2] = [0, Suc 0]"
  by (simp add: upt_rec numeral_2_eq_2)

lemma spec_broadcast_51_15:
  "ca \<noteq> 0 \<Longrightarrow> cb \<noteq> 0 \<Longrightarrow> spec_broadcast [[ca, 0], [0, cb]] st = ([ca, cb], st)"
  by (simp add: spec_broadcast_def spec_ndims_two upt_two spec_pad_def)

text \<open>
  C1.  When every operand of the broadcast resolver is an array variable with a recorded
  shape, the resolver returns what the specification's rule computes: the shapes are
  padded on the left with class 0 to the largest rank, and for each index the candidate
  starts as the first operand's class and, for every other operand's class \<open>e\<close> that
  is neither 0 nor the candidate, becomes \<open>e\<close> when it is 0 and the merge of the two
  otherwise.  The result has as many entries as the largest rank.  Shapes \<open>[ca, 0]\<close>
  and \<open>[0, cb]\<close> with \<open>ca\<close>, \<open>cb\<close> not 0 give \<open>[ca, cb]\<close> and merge nothing.
\<close>

theorem broadcast_spec:
  "(args \<noteq> [] \<longrightarrow> recorded_arrays st args \<longrightarrow>
      broadcast_and_match_shapes args st
        = Inr (spec_broadcast (map (\<lambda>a. the (array_shape_classes st a)) args) st) \<and>
      length (fst (spec_broadcast (map (\<lambda>a. the (array_shape_classes st a)) args) st))
        = Max (set (map (\<lambda>a. length (the (array_shape_classes st a))) args))) \<and>
   (ca \<noteq> 0 \<longrightarrow> cb \<noteq> 0 \<longrightarrow> recorded_arrays st [x, y] \<longrightarrow>
      array_shape_classes st x = Some [ca, 0] \<longrightarrow> array_shape_classes st y = Some [0, cb] \<longrightarrow>
      broadcast_and_match_shapes [x, y] st = Inr ([ca, cb], st))"
proof (intro conjI impI)
  assume a: "args \<noteq> []" "recorded_arrays st args"
  show "broadcast_and_match_shapes args st
        = Inr (spec_broadcast (map (\<lambda>a. the (array_shape_classes st a)) args) st)"
    by (rule broadcast_refines[OF a])
  obtain cs st' where r: "spec_dims
       (map (spec_pad (spec_ndims (map (\<lambda>a. the (array_shape_classes st a)) args)))
            (map (\<lambda>a. the (array_shape_classes st a)) args))
       [0..<spec_ndims (map (\<lambda>a. the (array_shape_classes st a)) args)] st = (cs, st')"
    by (meson surj_pair)
  show "length (fst (spec_broadcast (map (\<lambda>a. the (array_shape_classes st a)) args) st))
        = Max (set (map (\<lambda>a. length (the (array_shape_classes st a))) args))"
    using length_spec_dims[OF r] r
    by (simp add: spec_broadcast_def spec_ndims_def comp_def)
next
  assume h: "ca \<noteq> 0" "cb \<noteq> 0" "recorded_arrays st [x, y]"
    "array_shape_classes st x = Some [ca, 0]" "array_shape_classes st y = Some [0, cb]"
  have "broadcast_and_match_shapes [x, y] st
        = Inr (spec_broadcast (map (\<lambda>a. the (array_shape_classes st a)) [x, y]) st)"
    by (rule broadcast_refines[OF _ h(3)]) simp
  then show "broadcast_and_match_shapes [x, y] st = Inr ([ca, cb], st)"
    using h by (simp add: spec_broadcast_51_15)
qed

theorem broadcast_spec_witness:
  "[''P'', ''Q''] \<noteq> [] \<and> recorded_arrays bc_ex [''P'', ''Q''] \<and>
   map_sum id fst (broadcast_and_match_shapes [''P'', ''Q''] bc_ex) = Inr [3, 6] \<and>
   (1::int) \<noteq> 0 \<and> (2::int) \<noteq> 0 \<and> recorded_arrays bc_ex [''A'', ''B''] \<and>
   array_shape_classes bc_ex ''A'' = Some [1, 0] \<and>
   array_shape_classes bc_ex ''B'' = Some [0, 2] \<and>
   broadcast_and_match_shapes [''A'', ''B''] bc_ex = Inr ([1, 2], bc_ex)"
proof -
  have r1: "recorded_arrays bc_ex [''P'', ''Q'']" and r2: "recorded_arrays bc_ex [''A'', ''B'']"
    by (simp_all add: recorded_arrays_def bc_ex_def init_def)
  have a: "array_shape_classes bc_ex ''A'' = Some [1, 0]"
    and b: "array_shape_classes bc_ex ''B'' = Some [0, 2]"
    and p: "array_shape_classes bc_ex ''P'' = Some [3, 4]"
    and q: "array_shape_classes bc_ex ''Q'' = Some [5]"
    and n: "next_eq_class bc_ex = 6"
    by (simp_all add: bc_ex_def init_def)
  have nd: "spec_ndims [[3, 4], [5]] = 2" by (simp add: spec_ndims_def)
  have "map_sum id fst (broadcast_and_match_shapes [''P'', ''Q''] bc_ex) = Inr [3, 6]"
    using broadcast_spec [of "[''P'', ''Q'']" bc_ex 1 2 "''A''" "''B''"] r1
    by (simp add: p q spec_broadcast_def nd upt_two spec_pad_def merge_diff n split: prod.splits)
  moreover have "broadcast_and_match_shapes [''A'', ''B''] bc_ex = Inr ([1, 2], bc_ex)"
    using broadcast_spec [of "[''P'', ''Q'']" bc_ex 1 2 "''A''" "''B''"] r2 a b by simp
  ultimately show ?thesis using r1 r2 a b by simp
qed

subsection \<open>The rule for dot\<close>

lemma read_dims_nth:
  "array_shape_classes st name = Some l \<Longrightarrow> \<forall>i \<in> set is. i < length l \<Longrightarrow>
   read_dims st name is acc = Inr (acc @ map (\<lambda>i. l ! i) is)"
  by (induction "is" arbitrary: acc) (auto simp: shape_of_def lookup_def py_index_def)

lemma map_nth_upt_take: "k \<le> length l \<Longrightarrow> map (\<lambda>i. l ! i) [0..<k] = take k l"
  by (simp add: list_eq_iff_nth_eq)

lemma read_dims_take:
  "array_shape_classes st name = Some l \<Longrightarrow> k \<le> length l \<Longrightarrow>
   read_dims st name [0..<k] acc = Inr (acc @ take k l)"
  by (simp add: read_dims_nth map_nth_upt_take)

lemma py_index_nat: "k < length l \<Longrightarrow> py_index l (int k) = Inr (l ! k)"
  by (simp add: py_index_def)

lemma py_index_last: "l \<noteq> [] \<Longrightarrow> py_index l (int (length l) - 1) = Inr (last l)"
  by (cases l rule: rev_cases) (simp_all add: py_index_def nth_append)

lemma py_index_second_last:
  assumes "2 \<le> length l"
  shows "py_index l (int (length l) - 2) = Inr (l ! (length l - 2))"
proof -
  have "nat (int (length l) - 2) = length l - 2" by arith
  then show ?thesis using assms by (simp add: py_index_def)
qed

lemma dot_out_eq:
  assumes "array_shape_classes st in1 = Some l1" "array_shape_classes st in2 = Some l2"
    "l2 \<noteq> []"
  shows "dot_out st in1 in2 (length l1) (length l2)
     = Inr (butlast l1 @ take (length l2 - 2) l2 @ (if 2 \<le> length l2 then [last l2] else []))"
proof -
  have a: "read_dims st in1 [0..<length l1 - 1] [] = Inr (butlast l1)"
    using read_dims_take[OF assms(1), of "length l1 - 1" "[]"] by (simp add: butlast_conv_take)
  have b: "read_dims st in2 [0..<length l2 - 2] (butlast l1) = Inr (butlast l1 @ take (length l2 - 2) l2)"
    using read_dims_take[OF assms(2), of "length l2 - 2"] by simp
  have c: "shape_of st in2 = Inr l2" using assms(2) by (simp add: shape_of_def lookup_def)
  show ?thesis
    using py_index_last[OF assms(3)]
    by (simp only: dot_out_def a b c sum.case) auto
qed

lemma dot_inner_eq:
  assumes "array_shape_classes st in1 = Some l1" "array_shape_classes st in2 = Some l2"
    "l1 \<noteq> []" "l2 \<noteq> []"
  shows "dot_inner st in1 in2 (length l1) (length l2) = Inr (last l1, dot_c2 l2)"
proof -
  have s1: "shape_of st in1 = Inr l1" and s2: "shape_of st in2 = Inr l2"
    using assms by (simp_all add: shape_of_def lookup_def)
  have c: "py_index l2 0 = Inr (l2 ! 0)" using assms(4) py_index_nat[of 0 l2] by simp
  have "length l2 \<noteq> 0" using assms(4) by simp
  then have d: "length l2 \<noteq> 1 \<Longrightarrow> 2 \<le> length l2" by arith
  have e: "(if length l2 = 1 then py_index l2 0 else py_index l2 (int (length l2) - 2))
           = Inr (dot_c2 l2)"
    using c d py_index_second_last[of l2] by (simp add: dot_c2_def)
  show ?thesis
    by (simp only: dot_inner_def s1 s2 sum.case py_index_last[OF assms(3)] e)
qed

lemma merge_shapes:
  "array_shape_classes st v = Some l \<Longrightarrow>
   \<exists>l'. array_shape_classes (snd (merge_classes c1 c2 st)) v = Some l' \<and> length l' = length l"
  by (cases "c1 = c2") (auto simp: merge_same merge_diff)


lemma np_call_dot: "analyze_np_call R ''dot'' args st = analyze_dot args st"
  by (simp add: analyze_np_call_def)

lemma analyze_dot_eq:
  assumes s1: "array_shape_classes st in1 = Some l1" and s2: "array_shape_classes st in2 = Some l2"
    and n1: "l1 \<noteq> []" and n2: "l2 \<noteq> []" and r: "length rest \<le> 1"
    and m: "merge_classes (last l1) (dot_c2 l2) st = (c, st')"
  shows "analyze_dot (VarArg in1 # VarArg in2 # rest) st
     = Inr (butlast (the (array_shape_classes st' in1))
            @ take (length l2 - 2) (the (array_shape_classes st' in2))
            @ (if 2 \<le> length l2 then [last (the (array_shape_classes st' in2))] else []), st')"
proof -
  have st': "st' = snd (merge_classes (last l1) (dot_c2 l2) st)" using m by simp
  obtain l1' where a1: "array_shape_classes st' in1 = Some l1'" and b1: "length l1' = length l1"
    using merge_shapes[OF s1] st' by blast
  obtain l2' where a2: "array_shape_classes st' in2 = Some l2'" and b2: "length l2' = length l2"
    using merge_shapes[OF s2] st' by blast
  have ne: "l2' \<noteq> []" using n2 b2 by auto
  have len: "length (VarArg in1 # VarArg in2 # rest) = 2 \<or> length (VarArg in1 # VarArg in2 # rest) = 3"
    using r by (cases rest) auto
  have g0: "arg_at (VarArg in1 # VarArg in2 # rest) 0 = Inr in1"
    and g1: "arg_at (VarArg in1 # VarArg in2 # rest) 1 = Inr in2"
    by (simp_all add: arg_at_def py_index_def arg_name_def)
  have d1: "get_ndims st in1 = Inr (length l1)" and d2: "get_ndims st in2 = Inr (length l2)"
    using s1 s2 by (simp_all add: get_ndims_def lookup_def)
  have o: "dot_out st' in1 in2 (length l1) (length l2)
     = Inr (butlast l1' @ take (length l2 - 2) l2' @ (if 2 \<le> length l2 then [last l2'] else []))"
    using dot_out_eq[OF a1 a2 ne] by (simp add: b1 b2)
  show ?thesis
    using len
    by (simp only: analyze_dot_def g0 g1 d1 d2 dot_inner_eq[OF s1 s2 n1 n2] m o a1 a2
        sum.case prod.case Let_def option.sel simp_thms if_True if_False)
qed

text \<open>
  C3 (as amended).  For \<open>dot(a, b)\<close> on two variables with recorded shapes of rank at
  least 1 (and at most one further argument), the class of the last dimension of \<open>a\<close>
  is merged with the class of the only dimension of \<open>b\<close> when \<open>b\<close> has rank 1 and
  with its second to last otherwise.  The returned shape is read after the merge: the
  first \<open>r1 - 1\<close> classes of \<open>a\<close>, the first \<open>r2 - 2\<close> classes of \<open>b\<close>, and the last
  class of \<open>b\<close> when \<open>r2 \<ge> 2\<close>.  For shapes \<open>[m, k]\<close> and \<open>[k2, n]\<close> with \<open>k \<noteq> k2\<close>
  and with \<open>m\<close> and \<open>n\<close> different from both \<open>k\<close> and \<open>k2\<close>, the result is \<open>[m, n]\<close>,
  and \<open>k\<close>, \<open>k2\<close> are replaced by one new class in both recorded shapes.
\<close>

theorem dot_spec:
  "(array_shape_classes st in1 = Some l1 \<longrightarrow> array_shape_classes st in2 = Some l2 \<longrightarrow>
    l1 \<noteq> [] \<longrightarrow> l2 \<noteq> [] \<longrightarrow> length rest \<le> 1 \<longrightarrow>
      (case merge_classes (last l1) (dot_c2 l2) st of (c, st') \<Rightarrow>
         analyze_np_call R ''dot'' (VarArg in1 # VarArg in2 # rest) st
           = Inr (butlast (the (array_shape_classes st' in1))
                  @ take (length l2 - 2) (the (array_shape_classes st' in2))
                  @ (if 2 \<le> length l2 then [last (the (array_shape_classes st' in2))] else []),
                  st'))) \<and>
   (array_shape_classes st in1 = Some [m, k] \<longrightarrow> array_shape_classes st in2 = Some [k2, n] \<longrightarrow>
    k \<noteq> k2 \<longrightarrow> m \<noteq> k \<longrightarrow> m \<noteq> k2 \<longrightarrow> n \<noteq> k \<longrightarrow> n \<noteq> k2 \<longrightarrow> length rest \<le> 1 \<longrightarrow>
      analyze_np_call R ''dot'' (VarArg in1 # VarArg in2 # rest) st
        = Inr ([m, n], snd (merge_classes k k2 st)) \<and>
      fst (merge_classes k k2 st) = next_eq_class st \<and>
      array_shape_classes (snd (merge_classes k k2 st)) in1 = Some [m, next_eq_class st] \<and>
      array_shape_classes (snd (merge_classes k k2 st)) in2 = Some [next_eq_class st, n])"
proof (intro conjI impI)
  assume h: "array_shape_classes st in1 = Some l1" "array_shape_classes st in2 = Some l2"
    "l1 \<noteq> []" "l2 \<noteq> []" "length rest \<le> 1"
  obtain c st' where m: "merge_classes (last l1) (dot_c2 l2) st = (c, st')" by (meson surj_pair)
  show "case merge_classes (last l1) (dot_c2 l2) st of (c, st') \<Rightarrow>
         analyze_np_call R ''dot'' (VarArg in1 # VarArg in2 # rest) st
           = Inr (butlast (the (array_shape_classes st' in1))
                  @ take (length l2 - 2) (the (array_shape_classes st' in2))
                  @ (if 2 \<le> length l2 then [last (the (array_shape_classes st' in2))] else []),
                  st')"
    using analyze_dot_eq[OF h m] by (simp add: m np_call_dot)
next
  assume h: "array_shape_classes st in1 = Some [m, k]" "array_shape_classes st in2 = Some [k2, n]"
    "k \<noteq> k2" "m \<noteq> k" "m \<noteq> k2" "n \<noteq> k" "n \<noteq> k2" "length rest \<le> 1"
  have c2: "dot_c2 [k2, n] = k2" by (simp add: dot_c2_def)
  obtain c st' where mm: "merge_classes k k2 st = (c, st')" by (meson surj_pair)
  have sh1: "array_shape_classes st' in1 = Some [m, next_eq_class st]"
    and sh2: "array_shape_classes st' in2 = Some [next_eq_class st, n]"
    and cc: "c = next_eq_class st"
    using mm h by (auto simp: merge_diff rename_class_def)
  have "analyze_dot (VarArg in1 # VarArg in2 # rest) st = Inr ([m, n], st')"
    using analyze_dot_eq[OF h(1) h(2) _ _ h(8), of c st'] mm by (simp add: c2 sh1 sh2)
  then show "analyze_np_call R ''dot'' (VarArg in1 # VarArg in2 # rest) st
        = Inr ([m, n], snd (merge_classes k k2 st))"
    by (simp add: np_call_dot mm)
  show "fst (merge_classes k k2 st) = next_eq_class st" using mm cc by simp
  show "array_shape_classes (snd (merge_classes k k2 st)) in1 = Some [m, next_eq_class st]"
    using sh1 mm by simp
  show "array_shape_classes (snd (merge_classes k k2 st)) in2 = Some [next_eq_class st, n]"
    using sh2 mm by simp
qed

lemma dot_ex_fields:
  "array_shape_classes dot_ex ''a'' = Some [5, 2]"
  "array_shape_classes dot_ex ''b'' = Some [5, 4]"
  "array_shape_classes dot_ex ''c'' = Some [1, 2]"
  "array_shape_classes dot_ex ''d'' = Some [3, 4]"
  "next_eq_class dot_ex = 6"
  by (simp_all add: dot_ex_def init_def)

text \<open>
  The claim as first stated fails when \<open>m\<close> is one of the merged classes: with
  \<open>a = [5, 2]\<close> and \<open>b = [5, 4]\<close> the merge of 2 and 5 renames the first class of
  \<open>a\<close>, and the result is \<open>[6, 4]\<close>, not \<open>[5, 4]\<close>.
\<close>

theorem dot_shape_counterexample:
  "array_shape_classes dot_ex ''a'' = Some [5, 2] \<and>
   array_shape_classes dot_ex ''b'' = Some [5, 4] \<and> (2::int) \<noteq> 5 \<and>
   map_sum id fst (analyze_np_call np_regs ''dot'' [VarArg ''a'', VarArg ''b''] dot_ex) = Inr [6, 4] \<and>
   map_sum id fst (analyze_np_call np_regs ''dot'' [VarArg ''a'', VarArg ''b''] dot_ex) \<noteq> Inr [5, 4]"
proof -
  have m: "merge_classes (last [5, 2]) (dot_c2 [5, 4]) dot_ex = (6, snd (merge_classes 2 5 dot_ex))"
    by (simp add: dot_c2_def merge_diff dot_ex_fields)
  have "analyze_dot [VarArg ''a'', VarArg ''b''] dot_ex
        = Inr ([6, 4], snd (merge_classes 2 5 dot_ex))"
    using analyze_dot_eq[OF dot_ex_fields(1) dot_ex_fields(2) _ _ _ m, of "[]"]
    by (simp add: merge_diff dot_ex_fields rename_class_def)
  then show ?thesis by (simp add: np_call_dot dot_ex_fields)
qed

theorem dot_spec_witness:
  "array_shape_classes dot_ex ''c'' = Some [1, 2] \<and>
   array_shape_classes dot_ex ''d'' = Some [3, 4] \<and>
   [1, 2::int] \<noteq> [] \<and> [3, 4::int] \<noteq> [] \<and> length ([]::arg list) \<le> 1 \<and>
   (2::int) \<noteq> 3 \<and> (1::int) \<noteq> 2 \<and> (1::int) \<noteq> 3 \<and> (4::int) \<noteq> 2 \<and> (4::int) \<noteq> 3 \<and>
   map_sum id fst (analyze_np_call np_regs ''dot'' [VarArg ''c'', VarArg ''d''] dot_ex) = Inr [1, 4] \<and>
   array_shape_classes (snd (merge_classes 2 3 dot_ex)) ''c'' = Some [1, 6] \<and>
   array_shape_classes (snd (merge_classes 2 3 dot_ex)) ''d'' = Some [6, 4]"
  using dot_spec [of dot_ex "''c''" "[1, 2]" "''d''" "[3, 4]" "[]" np_regs 1 2 3 4]
  by (simp add: dot_ex_fields)

subsection \<open>Operands and shape arguments that make the analysis raise\<close>

lemmas eval_defs = init_def lookup_def isarray_def get_ndims_def shape_of_def arg_at_def
  arg_name_def py_index_def get_next_class_def print_def

text \<open>
  C7.  A ufunc call with an array and a scalar argument: the resolver does not treat the
  scalar as a class-0 operand but raises \<open>AttributeError\<close> at line 294, whichever
  operand comes first.
\<close>

theorem ufunc_scalar_raises:
  "analyze_np_call np_regs ''add'' [VarArg ''a'', VarArg ''s''] uf_ex = Inl AttributeError \<and>
   broadcast_and_match_shapes [''s'', ''a''] uf_ex = Inl AttributeError"
  by (simp add: analyze_np_call_def np_regs_def uf_ex_def broadcast_and_match_shapes_def eval_defs)

text \<open>
  C8.  \<open>empty\<close>, \<open>zeros\<close> and \<open>ones\<close> with a scalar integer shape argument raise
  \<open>NameError\<close> at line 256 and record nothing.  With a tuple of two size variables
  they return two fresh classes, each backed by its tuple element.
\<close>

theorem scalar_shape_raises:
  "analyze_np_call np_regs ''empty'' [VarArg ''n''] shape_ex = Inl NameError \<and>
   analyze_np_call np_regs ''zeros'' [VarArg ''n''] shape_ex = Inl NameError \<and>
   analyze_np_call np_regs ''ones'' [VarArg ''n''] shape_ex = Inl NameError \<and>
   map_sum id fst (analyze_np_call np_regs ''zeros'' [VarArg ''t''] shape_ex) = Inr [1, 2] \<and>
   map_sum id (\<lambda>r. class_sizes (snd r) 1) (analyze_np_call np_regs ''zeros'' [VarArg ''t''] shape_ex)
     = Inr (Some [SVar ''p'']) \<and>
   map_sum id (\<lambda>r. class_sizes (snd r) 2) (analyze_np_call np_regs ''zeros'' [VarArg ''t''] shape_ex)
     = Inr (Some [SVar ''q''])"
  by (simp add: analyze_np_call_def np_regs_def shape_ex_def get_classes_from_shape_def eval_defs
      upt_two)


subsection \<open>Expressions and calls without a rule\<close>

lemma np_call_unknown:
  "name \<notin> set named_rules \<Longrightarrow> name \<notin> set (UFUNC_MAP_OP R) \<Longrightarrow>
   analyze_np_call R name args st = Inr ([- 1], print (''unknown numpy call: '' @ name) st)"
  by (simp add: analyze_np_call_def named_rules_def)

lemma str_nat_digit: "n < 10 \<Longrightarrow> str_nat n = [digit_char n]"
  by (simp add: str_nat.simps)

text \<open>
  The run does not always complete: a call to a target that no registry holds fails the
  assertion of line 189.
\<close>

theorem unregistered_call_counterexample:
  "run np_regs unregistered_prog (init call_ex_types) = Inl AssertionError"
  by (simp add: run_def unregistered_prog_def analyze_block_def analyze_assign_def record_tables_def
      record_shape_def size_step_def add_array_corr_def analyze_call_def call_ex_types_def eval_defs
      gen_size_call_def mk_unique_var_def set_size_var_def str_nat_digit unknown_size_def Let_def
      upt_rec)


lemmas run_defs = run_def analyze_block_def analyze_assign_def record_tables_def
      record_shape_def size_step_def add_array_corr_def analyze_call_def eval_defs
      gen_size_call_def mk_unique_var_def set_size_var_def str_nat_digit digit_char_def
      unknown_size_def Let_def upt_rec

subsection \<open>The unknown class\<close>

text \<open>
  C9.  After \<open>x = np.foo(a)\<close> the shape of \<open>x\<close> is \<open>[-1]\<close>.  The addition \<open>x + a\<close>
  then merges class \<open>-1\<close> with the class of \<open>a\<close>: the \<open>-1\<close> recorded for \<open>x\<close> is
  rewritten to the new class 2.  On a state with \<open>x = [-1]\<close> and \<open>a = [1]\<close> the resolver
  returns the state of \<open>merge_classes (-1) 1\<close>.
\<close>

theorem unknown_class_merged:
  "shape_after (run np_regs [(0, unknown_call_prog)] (init call_ex_types)) ''x'' = Inr (Some [- 1]) \<and>
   shape_after (run np_regs [(0, merge_unknown_prog)] (init call_ex_types)) ''x'' = Inr (Some [2]) \<and>
   shape_after (run np_regs [(0, merge_unknown_prog)] (init call_ex_types)) ''a'' = Inr (Some [2]) \<and>
   shape_after (run np_regs [(0, merge_unknown_prog)] (init call_ex_types)) ''y'' = Inr (Some [2]) \<and>
   broadcast_and_match_shapes [''x'', ''a''] neg_ex
     = Inr ([2], snd (merge_classes (- 1) 1 neg_ex)) \<and>
   array_shape_classes (snd (merge_classes (- 1) 1 neg_ex)) ''x'' = Some [2] \<and>
   class_sizes (snd (merge_classes (- 1) 1 neg_ex)) 2 = Some [SVar ''n'']"
proof -
  have r: "shape_after (run np_regs [(0, unknown_call_prog)] (init call_ex_types)) ''x'' = Inr (Some [- 1])"
    "shape_after (run np_regs [(0, merge_unknown_prog)] (init call_ex_types)) ''x'' = Inr (Some [2])"
    "shape_after (run np_regs [(0, merge_unknown_prog)] (init call_ex_types)) ''a'' = Inr (Some [2])"
    "shape_after (run np_regs [(0, merge_unknown_prog)] (init call_ex_types)) ''y'' = Inr (Some [2])"
    by (simp_all add: shape_after_def merge_unknown_prog_def unknown_call_prog_def run_defs
        call_ex_types_def analyze_np_call_def np_regs_def broadcast_and_match_shapes_def
        max_len_def pad_def merge_diff reps_def rename_class_def)
  have b: "broadcast_and_match_shapes [''x'', ''a''] neg_ex
       = Inr ([2], snd (merge_classes (- 1) 1 neg_ex))"
    "array_shape_classes (snd (merge_classes (- 1) 1 neg_ex)) ''x'' = Some [2]"
    "class_sizes (snd (merge_classes (- 1) 1 neg_ex)) 2 = Some [SVar ''n'']"
    by (simp_all add: neg_ex_def eval_defs broadcast_and_match_shapes_def max_len_def pad_def
        merge_diff reps_def rename_class_def)
  show ?thesis using r b by simp
qed

subsection \<open>Size calls\<close>

lemma append_neq_self: "ys \<noteq> [] \<Longrightarrow> xs @ ys \<noteq> xs" "ys \<noteq> [] \<Longrightarrow> ys @ xs \<noteq> xs"
  by auto

lemma gen_size_call_ok:
  assumes "array_shape_classes st var = Some l"
  shows "\<exists>a c s tm ct u.
     gen_size_call var i st
       = Inr (size_nodes var i a c s, st\<lparr>typemap := tm, calltypes := ct, unique_var_count := u\<rparr>) \<and>
     tm var = typemap st var \<and> (\<forall>x. non_array (typemap st x) \<longrightarrow> non_array (tm x))"
proof -
  define a where "a = var @ ''_sh_attr'' @ str_nat i @ ''.'' @ str_nat (unique_var_count st)"
  define c where "c = ''$const'' @ var @ str_nat i @ ''.'' @ str_nat (unique_var_count st + 1)"
  define s where "s = var @ ''size'' @ str_nat i @ ''.'' @ str_nat (unique_var_count st + 1 + 1)"
  define tm where "tm = (typemap st)(a \<mapsto> UniTuple (length l), c \<mapsto> Integer, s \<mapsto> Integer)"
  have eq: "gen_size_call var i st
       = Inr (size_nodes var i a c s,
              st\<lparr>typemap := tm, calltypes := (calltypes st)(StaticGetitem a i c \<mapsto> None),
                 unique_var_count := unique_var_count st + 1 + 1 + 1\<rparr>)"
    using assms
    by (simp add: gen_size_call_def get_ndims_def lookup_def mk_unique_var_def Let_def
        size_nodes_def a_def c_def s_def tm_def)
  have "length a \<noteq> length var" "length c \<noteq> length var" "length s \<noteq> length var"
    by (simp_all add: a_def c_def s_def)
  then have n: "a \<noteq> var" "c \<noteq> var" "s \<noteq> var" by auto
  have p1: "tm var = typemap st var" using n by (simp add: tm_def)
  have p2: "\<forall>x. non_array (typemap st x) \<longrightarrow> non_array (tm x)"
    by (simp add: tm_def non_array_def)
  show ?thesis using eq p1 p2 by blast
qed

lemma size_step_emit:
  assumes e: "corr = - 1 \<or> corr \<notin> dom (class_sizes st)"
    and sh: "array_shape_classes st lhs = Some l"
    and sv: "array_size_vars st lhs = Some sv" and i: "i < length sv"
  shows "\<exists>a c s tm ct u.
     size_step lhs i corr st
       = Inr (size_nodes lhs i a c s,
              st\<lparr>typemap := tm, calltypes := ct, unique_var_count := u,
                 class_sizes := (if corr \<noteq> - 1 then (class_sizes st)(corr \<mapsto> [SVar s])
                                 else class_sizes st),
                 array_size_vars := (array_size_vars st)(lhs \<mapsto> sv[i := SVar s])\<rparr>) \<and>
     tm lhs = typemap st lhs \<and> (\<forall>x. non_array (typemap st x) \<longrightarrow> non_array (tm x))"
proof -
  obtain a c s tm ct u where
    g: "gen_size_call lhs i st
       = Inr (size_nodes lhs i a c s, st\<lparr>typemap := tm, calltypes := ct, unique_var_count := u\<rparr>)"
    and p: "tm lhs = typemap st lhs" "\<forall>x. non_array (typemap st x) \<longrightarrow> non_array (tm x)"
    using gen_size_call_ok[OF sh, of i] by blast
  have "size_step lhs i corr st
       = Inr (size_nodes lhs i a c s,
              st\<lparr>typemap := tm, calltypes := ct, unique_var_count := u,
                 class_sizes := (if corr \<noteq> - 1 then (class_sizes st)(corr \<mapsto> [SVar s])
                                 else class_sizes st),
                 array_size_vars := (array_size_vars st)(lhs \<mapsto> sv[i := SVar s])\<rparr>)"
    using e sv i
    by (auto simp: size_step_def g size_nodes_def set_size_var_def lookup_def Let_def)
  then show ?thesis using p by blast
qed

lemma size_step_reuse:
  assumes "corr \<noteq> - 1" "class_sizes st corr = Some (r # rs)"
    and sv: "array_size_vars st lhs = Some sv" and i: "i < length sv"
  shows "size_step lhs i corr st
       = Inr ([], st\<lparr>array_size_vars := (array_size_vars st)(lhs \<mapsto> sv[i := r])\<rparr>)"
  using assms
  by (auto simp: size_step_def set_size_var_def lookup_def py_index_def)


lemma needs_Cons_emit:
  "c = - 1 \<or> c \<notin> dom cs0 \<Longrightarrow>
   needs_size_call cs0 (c # cs) (Suc j)
     = needs_size_call (if c \<noteq> - 1 then cs0(c \<mapsto> v) else cs0) cs j"
  by (auto simp: needs_size_call_def)

lemma needs_Cons_reuse:
  "c \<in> dom cs0 \<Longrightarrow> needs_size_call cs0 (c # cs) (Suc j) = needs_size_call cs0 cs j"
  by (auto simp: needs_size_call_def)

lemma needs_Cons_0: "needs_size_call cs0 (c # cs) 0 \<longleftrightarrow> c = - 1 \<or> c \<notin> dom cs0"
  by (simp add: needs_size_call_def)

lemma size_loop_char:
  assumes "array_shape_classes st lhs = Some l" "array_size_vars st lhs = Some sv"
    "k + length corrs \<le> length sv"
    "\<forall>c \<in> set corrs. c = - 1 \<or> class_sizes st c \<noteq> Some []"
  shows "\<exists>gens st'. size_loop lhs (enumerate k corrs) acc st = Inr (acc @ concat gens, st') \<and>
           loop_post lhs st sv k corrs gens st'"
  using assms
proof (induction corrs arbitrary: k acc st sv)
  case Nil
  then show ?case by (simp add: loop_post_def)
next
  case (Cons c cs)
  have klt: "k < length sv" using Cons.prems(3) by simp
  show ?case
  proof (cases "c = - 1 \<or> c \<notin> dom (class_sizes st)")
    case True
    obtain a cv s tm ct u where
      step: "size_step lhs k c st
           = Inr (size_nodes lhs k a cv s,
              st\<lparr>typemap := tm, calltypes := ct, unique_var_count := u,
                 class_sizes := (if c \<noteq> - 1 then (class_sizes st)(c \<mapsto> [SVar s])
                                 else class_sizes st),
                 array_size_vars := (array_size_vars st)(lhs \<mapsto> sv[k := SVar s])\<rparr>)"
      and tm: "tm lhs = typemap st lhs" "\<forall>x. non_array (typemap st x) \<longrightarrow> non_array (tm x)"
      using size_step_emit[OF True Cons.prems(1) Cons.prems(2) klt] by blast
    define st1 where "st1 = st\<lparr>typemap := tm, calltypes := ct, unique_var_count := u,
                 class_sizes := (if c \<noteq> - 1 then (class_sizes st)(c \<mapsto> [SVar s])
                                 else class_sizes st),
                 array_size_vars := (array_size_vars st)(lhs \<mapsto> sv[k := SVar s])\<rparr>"
    have f1: "array_shape_classes st1 = array_shape_classes st"
      "array_size_vars st1 lhs = Some (sv[k := SVar s])"
      "class_sizes st1 = (if c \<noteq> - 1 then (class_sizes st)(c \<mapsto> [SVar s]) else class_sizes st)"
      "typemap st1 = tm"
      by (simp_all add: st1_def)
    have p4: "\<forall>c' \<in> set cs. c' = - 1 \<or> class_sizes st1 c' \<noteq> Some []"
      using Cons.prems(4) by (auto simp: f1)
    obtain gens st' where
      r: "size_loop lhs (enumerate (Suc k) cs) (acc @ size_nodes lhs k a cv s) st1
            = Inr ((acc @ size_nodes lhs k a cv s) @ concat gens, st')"
      and post: "loop_post lhs st1 (sv[k := SVar s]) (Suc k) cs gens st'"
      using Cons.IH[of st1 "sv[k := SVar s]" "Suc k" "acc @ size_nodes lhs k a cv s"]
        Cons.prems(1) Cons.prems(3) f1 p4 by auto
    obtain sv' where sv': "array_size_vars st' lhs = Some sv'" "length sv' = length sv"
      "\<forall>j < Suc k. sv' ! j = sv[k := SVar s] ! j"
      "\<forall>i < length cs. dim_result lhs (class_sizes st1) (class_sizes st') cs i (Suc k + i)
           (gens ! i) (sv' ! (Suc k + i))"
      using post by (auto simp: loop_post_def)
    have keep: "\<forall>x. x = - 1 \<or> x \<in> dom (class_sizes st1) \<or> x \<notin> set cs
          \<longrightarrow> class_sizes st' x = class_sizes st1 x"
      using post by (simp add: loop_post_def)
    have svk: "sv' ! k = SVar s" using sv'(3) klt by simp
    have csc: "class_sizes st' c = Some [SVar s]" if "c \<noteq> - 1"
    proof -
      have "class_sizes st1 c = Some [SVar s]" using that by (simp add: f1)
      moreover have "c \<in> dom (class_sizes st1)" using calculation by blast
      ultimately show ?thesis using keep by metis
    qed
    have d0: "dim_result lhs (class_sizes st) (class_sizes st') (c # cs) 0 (k + 0)
                (size_nodes lhs k a cv s) (sv' ! (k + 0))"
      using True svk csc by (auto simp: dim_result_def needs_Cons_0)
    have dS: "dim_result lhs (class_sizes st) (class_sizes st') (c # cs) (Suc j) (k + Suc j)
                (gens ! j) (sv' ! (k + Suc j))" if "j < length cs" for j
    proof -
      have d: "dim_result lhs (class_sizes st1) (class_sizes st') cs j (Suc k + j)
           (gens ! j) (sv' ! (Suc k + j))" using sv'(4) that by simp
      have n: "needs_size_call (class_sizes st) (c # cs) (Suc j)
               = needs_size_call (class_sizes st1) cs j"
        using needs_Cons_emit[OF True, of cs j "[SVar s]"] by (simp add: f1)
      show ?thesis
        using d True unfolding dim_result_def n
        by (auto simp: f1 split: if_splits; metis)
    qed
    have dall: "\<forall>i < length (c # cs).
               dim_result lhs (class_sizes st) (class_sizes st') (c # cs) i (k + i)
                 ((size_nodes lhs k a cv s # gens) ! i) (sv' ! (k + i))"
    proof (intro allI impI)
      fix i assume "i < length (c # cs)"
      then show "dim_result lhs (class_sizes st) (class_sizes st') (c # cs) i (k + i)
                 ((size_nodes lhs k a cv s # gens) ! i) (sv' ! (k + i))"
        using d0 dS by (cases i) auto
    qed
    have keep': "\<forall>x. x = - 1 \<or> x \<in> dom (class_sizes st) \<or> x \<notin> set (c # cs)
          \<longrightarrow> class_sizes st' x = class_sizes st x"
      using keep True by (auto simp: f1 split: if_splits)
    have lp: "loop_post lhs st sv k (c # cs) (size_nodes lhs k a cv s # gens) st'"
      unfolding loop_post_def
      using post sv' dall keep' tm klt
      by (auto simp: loop_post_def f1)
    have "size_loop lhs (enumerate k (c # cs)) acc st
            = Inr (acc @ concat (size_nodes lhs k a cv s # gens), st')"
      using step r by (simp add: st1_def)
    then show ?thesis using lp by blast
  next
    case False
    then have cne: "c \<noteq> - 1" and cin: "c \<in> dom (class_sizes st)" by auto
    obtain r rs where rr: "class_sizes st c = Some (r # rs)"
      using cin cne Cons.prems(4) by (cases "the (class_sizes st c)") auto
    define st1 where "st1 = st\<lparr>array_size_vars := (array_size_vars st)(lhs \<mapsto> sv[k := r])\<rparr>"
    have step: "size_step lhs k c st = Inr ([], st1)"
      using size_step_reuse[OF cne rr Cons.prems(2) klt] by (simp add: st1_def)
    have f1: "array_shape_classes st1 = array_shape_classes st"
      "array_size_vars st1 lhs = Some (sv[k := r])"
      "class_sizes st1 = class_sizes st" "typemap st1 = typemap st"
      by (simp_all add: st1_def)
    have p4: "\<forall>c' \<in> set cs. c' = - 1 \<or> class_sizes st1 c' \<noteq> Some []"
      using Cons.prems(4) by (auto simp: f1)
    obtain gens st' where
      r: "size_loop lhs (enumerate (Suc k) cs) acc st1 = Inr (acc @ concat gens, st')"
      and post: "loop_post lhs st1 (sv[k := r]) (Suc k) cs gens st'"
      using Cons.IH[of st1 "sv[k := r]" "Suc k" acc]
        Cons.prems(1) Cons.prems(3) f1 p4 by auto
    obtain sv' where sv': "array_size_vars st' lhs = Some sv'" "length sv' = length sv"
      "\<forall>j < Suc k. sv' ! j = sv[k := r] ! j"
      "\<forall>i < length cs. dim_result lhs (class_sizes st1) (class_sizes st') cs i (Suc k + i)
           (gens ! i) (sv' ! (Suc k + i))"
      using post by (auto simp: loop_post_def)
    have keep: "\<forall>x. x = - 1 \<or> x \<in> dom (class_sizes st1) \<or> x \<notin> set cs
          \<longrightarrow> class_sizes st' x = class_sizes st1 x"
      using post by (simp add: loop_post_def)
    have svk: "sv' ! k = r" using sv'(3) klt by simp
    have d0: "dim_result lhs (class_sizes st) (class_sizes st') (c # cs) 0 (k + 0)
                [] (sv' ! (k + 0))"
      using cne cin rr svk keep by (auto simp: dim_result_def needs_Cons_0 f1)
    have dS: "dim_result lhs (class_sizes st) (class_sizes st') (c # cs) (Suc j) (k + Suc j)
                (gens ! j) (sv' ! (k + Suc j))" if "j < length cs" for j
    proof -
      have d: "dim_result lhs (class_sizes st1) (class_sizes st') cs j (Suc k + j)
           (gens ! j) (sv' ! (Suc k + j))" using sv'(4) that by simp
      have n: "needs_size_call (class_sizes st) (c # cs) (Suc j)
               = needs_size_call (class_sizes st1) cs j"
        using needs_Cons_reuse[OF cin, of cs j] by (simp add: f1)
      show ?thesis
        using d unfolding dim_result_def n
        by (auto simp: f1 split: if_splits)
    qed
    have dall: "\<forall>i < length (c # cs).
               dim_result lhs (class_sizes st) (class_sizes st') (c # cs) i (k + i)
                 (([] # gens) ! i) (sv' ! (k + i))"
    proof (intro allI impI)
      fix i assume "i < length (c # cs)"
      then show "dim_result lhs (class_sizes st) (class_sizes st') (c # cs) i (k + i)
                 (([] # gens) ! i) (sv' ! (k + i))"
        using d0 dS by (cases i) auto
    qed
    have keep': "\<forall>x. x = - 1 \<or> x \<in> dom (class_sizes st) \<or> x \<notin> set (c # cs)
          \<longrightarrow> class_sizes st' x = class_sizes st x"
      using keep cin by (auto simp: f1)
    have lp: "loop_post lhs st sv k (c # cs) ([] # gens) st'"
      unfolding loop_post_def
      using post sv' dall keep' klt
      by (auto simp: loop_post_def f1)
    have "size_loop lhs (enumerate k (c # cs)) acc st = Inr (acc @ concat ([] # gens), st')"
      using step r by simp
    then show ?thesis using lp by blast
  qed
qed


lemma record_shape_no_conflict:
  assumes "analyze_rhs_classes R rhs st0 = Inr (corrs, st1)"
    "array_shape_classes st1 lhs = None \<or> array_shape_classes st1 lhs = Some corrs"
  shows "record_shape R lhs rhs st0 = size_loop lhs (enumerate 0 corrs) [] (recorded st1 lhs corrs)"
  using assms by (auto simp: record_shape_def recorded_def)

lemma record_shape_conflict:
  assumes "analyze_rhs_classes R rhs st0 = Inr (new, st1)"
    "array_shape_classes st1 lhs = Some old" "old \<noteq> new"
  shows "record_shape R lhs rhs st0
     = Inr ([], st1\<lparr>array_shape_classes :=
                       (array_shape_classes st1)(lhs \<mapsto> replicate (length old) (- 1)),
                     array_size_vars := (array_size_vars st1)(lhs := None),
                     stdout := stdout st1 @ [''incompatible array shapes in control flow'']\<rparr>)"
  using assms by (simp add: record_shape_def print_def)

lemma analyze_assign_array:
  assumes "record_tables lhs rhs st = Inr st0" "isarray st0 lhs = Inr True"
  shows "analyze_assign R rhs lhs st = record_shape R lhs rhs st0"
  using assms by (simp add: analyze_assign_def)

lemma size_loop_recorded:
  assumes "reps_nonempty st1 corrs"
  shows "\<exists>gens st'. size_loop lhs (enumerate 0 corrs) [] (recorded st1 lhs corrs) = Inr (concat gens, st') \<and>
           loop_post lhs (recorded st1 lhs corrs) (replicate (length corrs) unknown_size) 0 corrs gens st'"
proof -
  have a: "array_shape_classes (recorded st1 lhs corrs) lhs = Some corrs"
    and b: "array_size_vars (recorded st1 lhs corrs) lhs = Some (replicate (length corrs) unknown_size)"
    and c: "class_sizes (recorded st1 lhs corrs) = class_sizes st1"
    by (simp_all add: recorded_def)
  have d: "\<forall>c \<in> set corrs. c = - 1 \<or> class_sizes (recorded st1 lhs corrs) c \<noteq> Some []"
    using assms by (simp add: reps_nonempty_def list_all_iff c)
  show ?thesis
    using size_loop_char[OF a b _ d, of 0 "[]"] by simp
qed

text \<open>
  The walk when every entry has a representative.  Take an assignment to an array
  variable whose shape \<open>corrs\<close> is recorded without conflict, no class of which has an
  empty size-table entry.  The assignment returns the concatenation of one instruction
  list per dimension.  The list of dimension \<open>i\<close> is not empty exactly when the class is
  \<open>-1\<close> or has no size-table entry when the walk reaches \<open>i\<close>; it then consists of the
  three instructions of a size call on the target for index \<open>i\<close>, the variable they bind
  is the size variable of the dimension, and it becomes the class's only representative
  unless the class is \<open>-1\<close>.  Otherwise nothing is emitted and the size variable is the
  first representative of the class's entry.  Class \<open>-1\<close> gets no entry.
\<close>

lemma size_calls_backed:
  assumes "record_tables lhs rhs st = Inr st0" "isarray st0 lhs = Inr True"
    "analyze_rhs_classes R rhs st0 = Inr (corrs, st1)"
    "array_shape_classes st1 lhs = None \<or> array_shape_classes st1 lhs = Some corrs"
    "reps_nonempty st1 corrs"
  shows "\<exists>gens st' sv. analyze_assign R rhs lhs st = Inr (concat gens, st') \<and>
           length gens = length corrs \<and>
           array_shape_classes st' lhs = Some corrs \<and>
           array_size_vars st' lhs = Some sv \<and> length sv = length corrs \<and>
           (\<forall>i < length corrs.
              dim_result lhs (class_sizes st1) (class_sizes st') corrs i i (gens ! i) (sv ! i)) \<and>
           class_sizes st' (- 1) = class_sizes st1 (- 1)"
proof -
  obtain gens st' where
    r: "size_loop lhs (enumerate 0 corrs) [] (recorded st1 lhs corrs) = Inr (concat gens, st')"
    and p: "loop_post lhs (recorded st1 lhs corrs) (replicate (length corrs) unknown_size) 0 corrs gens st'"
    using size_loop_recorded[OF assms(5)] by blast
  have e: "analyze_assign R rhs lhs st = Inr (concat gens, st')"
    using analyze_assign_array[OF assms(1,2)] record_shape_no_conflict[OF assms(3,4)] r by simp
  show ?thesis
    using e p by (auto simp: loop_post_def recorded_def)
qed


lemma size_calls_backed_example:
  "record_tables ''v'' (Var ''a'') size_ex = Inr size_ex \<and>
   isarray size_ex ''v'' = Inr True \<and>
   analyze_rhs_classes np_regs (Var ''a'') size_ex = Inr ([1, 5, 5, - 1], size_ex) \<and>
   (array_shape_classes size_ex ''v'' = None \<or>
    array_shape_classes size_ex ''v'' = Some [1, 5, 5, - 1]) \<and>
   reps_nonempty size_ex [1, 5, 5, - 1] \<and>
   map_sum id fst (analyze_assign np_regs (Var ''a'') ''v'' size_ex)
     = Inr (size_nodes ''v'' 1 ''v_sh_attr1.0'' ''$constv1.1'' ''vsize1.2''
            @ size_nodes ''v'' 3 ''v_sh_attr3.3'' ''$constv3.4'' ''vsize3.5'') \<and>
   map_sum id (\<lambda>r. array_size_vars (snd r) ''v'') (analyze_assign np_regs (Var ''a'') ''v'' size_ex)
     = Inr (Some [SVar ''n'', SVar ''vsize1.2'', SVar ''vsize1.2'', SVar ''vsize3.5'']) \<and>
   map_sum id (\<lambda>r. class_sizes (snd r) 5) (analyze_assign np_regs (Var ''a'') ''v'' size_ex)
     = Inr (Some [SVar ''vsize1.2'']) \<and>
   map_sum id (\<lambda>r. class_sizes (snd r) (- 1)) (analyze_assign np_regs (Var ''a'') ''v'' size_ex)
     = Inr None"
proof -
  have h: "record_tables ''v'' (Var ''a'') size_ex = Inr size_ex"
    "isarray size_ex ''v'' = Inr True"
    "analyze_rhs_classes np_regs (Var ''a'') size_ex = Inr ([1, 5, 5, - 1], size_ex)"
    "array_shape_classes size_ex ''v'' = None \<or>
     array_shape_classes size_ex ''v'' = Some [1, 5, 5, - 1]"
    "reps_nonempty size_ex [1, 5, 5, - 1]"
    by (simp_all add: record_tables_def size_ex_def eval_defs reps_nonempty_def)
  have e: "map_sum id fst (analyze_assign np_regs (Var ''a'') ''v'' size_ex)
     = Inr (size_nodes ''v'' 1 ''v_sh_attr1.0'' ''$constv1.1'' ''vsize1.2''
            @ size_nodes ''v'' 3 ''v_sh_attr3.3'' ''$constv3.4'' ''vsize3.5'')"
    by (simp add: size_ex_def run_defs size_nodes_def)
  have sv: "map_sum id (\<lambda>r. array_size_vars (snd r) ''v'') (analyze_assign np_regs (Var ''a'') ''v'' size_ex)
     = Inr (Some [SVar ''n'', SVar ''vsize1.2'', SVar ''vsize1.2'', SVar ''vsize3.5''])"
    by (simp add: size_ex_def run_defs)
  have c5: "map_sum id (\<lambda>r. class_sizes (snd r) 5) (analyze_assign np_regs (Var ''a'') ''v'' size_ex)
     = Inr (Some [SVar ''vsize1.2''])"
    by (simp add: size_ex_def run_defs)
  have cm: "map_sum id (\<lambda>r. class_sizes (snd r) (- 1)) (analyze_assign np_regs (Var ''a'') ''v'' size_ex)
     = Inr None"
    by (simp add: size_ex_def run_defs)
  from size_calls_backed [OF h(1) h(2) h(3) h(4) h(5)]
  have "\<exists>gens st' sv. analyze_assign np_regs (Var ''a'') ''v'' size_ex = Inr (concat gens, st')"
    by blast
  then show ?thesis
    using h e sv c5 cm by blast
qed

subsection \<open>Conflicting shapes\<close>





subsection \<open>Blocks\<close>

lemma merge_typemap: "typemap (snd (merge_classes c1 c2 st)) = typemap st"
  by (cases "c1 = c2") (simp_all add: merge_same merge_diff)

lemma merge_typemap_pair: "merge_classes c1 c2 st = (c, st') \<Longrightarrow> typemap st' = typemap st"
  using merge_typemap[of c1 c2 st] by simp

lemma bc_inner_typemap: "typemap (snd (bc_inner i es c st)) = typemap st"
proof (induction es arbitrary: c st)
  case Nil
  then show ?case by simp
next
  case (Cons e es)
  show ?case
    using Cons.IH merge_typemap[of c "e ! i" st]
    by (auto split: prod.splits)
qed

lemma bc_outer_typemap: "typemap (snd (bc_outer eqs is out st)) = typemap st"
proof (induction "is" arbitrary: out st)
  case Nil
  then show ?case by simp
next
  case (Cons i "is")
  show ?case
    using Cons.IH bc_inner_typemap[of i eqs "hd eqs ! i" st]
    by (auto split: prod.splits)
qed

lemma broadcast_typemap:
  "broadcast_and_match_shapes args st = Inr (r, st') \<Longrightarrow> typemap st' = typemap st"
  using bc_outer_typemap
  by (auto simp: broadcast_and_match_shapes_def split: sum.splits if_splits) (metis snd_conv)

lemma shape_loop_typemap:
  "shape_loop a is out st = Inr (r, st') \<Longrightarrow> typemap st' = typemap st"
  by (induction "is" arbitrary: out st)
     (auto simp: get_next_class_def split: sum.splits prod.splits)

lemma classes_from_shape_typemap:
  "get_classes_from_shape a st = Inr (r, st') \<Longrightarrow> typemap st' = typemap st"
  by (auto simp: get_classes_from_shape_def get_next_class_def split: sum.splits pytype.splits
      dest: shape_loop_typemap)

lemma add_corr_loop_typemap:
  "add_corr_loop v k st = Inr st' \<Longrightarrow> typemap st' = typemap st"
  by (induction k arbitrary: st)
     (auto simp: get_next_class_def split: sum.splits prod.splits)

lemma add_array_corr_typemap:
  "add_array_corr v st = Inr (r, st') \<Longrightarrow> typemap st' = typemap st"
  by (auto simp: add_array_corr_def Let_def split: sum.splits pytype.splits if_splits
      dest!: add_corr_loop_typemap)

lemma analyze_dot_typemap:
  "analyze_dot args st = Inr (r, st') \<Longrightarrow> typemap st' = typemap st"
  by (auto simp: analyze_dot_def split: sum.splits prod.splits if_splits
      dest: merge_typemap_pair)

lemma np_call_typemap:
  "analyze_np_call R name args st = Inr (r, st') \<Longrightarrow> typemap st' = typemap st"
  by (auto simp: analyze_np_call_def print_def split: sum.splits if_splits
      dest: classes_from_shape_typemap analyze_dot_typemap broadcast_typemap)

lemma call_typemap:
  "analyze_call R func vargs st = Inr (r, st') \<Longrightarrow> typemap st' = typemap st"
  by (auto simp: analyze_call_def Let_def split: sum.splits if_splits option.splits prod.splits
      dest: np_call_typemap)

lemma rhs_typemap:
  "analyze_rhs_classes R rhs st = Inr (r, st') \<Longrightarrow> typemap st' = typemap st"
proof (induction R rhs st rule: analyze_rhs_classes.induct)
qed (auto simp: no_rule_expr_def no_rule_node_def print_def
      split: sum.splits if_splits bool.splits
      dest: add_array_corr_typemap broadcast_typemap call_typemap np_call_typemap)


lemma record_tables_typemap:
  "record_tables lhs rhs st = Inr st' \<Longrightarrow> typemap st' = typemap st"
  by (auto simp: record_tables_def Let_def
      split: node.splits expr.splits pyconst.splits option.splits if_splits sum.splits bool.splits)

lemma size_step_non_array:
  "size_step lhs i c st = Inr (g, st') \<Longrightarrow> non_array (typemap st x) \<Longrightarrow> non_array (typemap st' x)"
  by (auto simp: size_step_def gen_size_call_def mk_unique_var_def set_size_var_def Let_def
      non_array_def split: sum.splits if_splits inst.splits prod.splits)

lemma size_loop_non_array:
  "size_loop lhs ics acc st = Inr (g, st') \<Longrightarrow> non_array (typemap st x) \<Longrightarrow> non_array (typemap st' x)"
proof (induction ics arbitrary: acc st)
  case Nil
  then show ?case by simp
next
  case (Cons ic ics)
  obtain i c where ic: "ic = (i, c)" by (cases ic)
  from Cons.prems(1) obtain nodes st1 where
    s: "size_step lhs i c st = Inr (nodes, st1)"
    and l: "size_loop lhs ics (acc @ nodes) st1 = Inr (g, st')"
    by (auto simp: ic split: sum.splits)
  show ?case using Cons.IH[OF l] size_step_non_array[OF s Cons.prems(2)] by simp
qed

lemma record_shape_non_array:
  assumes "record_shape R lhs rhs st = Inr (g, st')" "non_array (typemap st x)"
  shows "non_array (typemap st' x)"
proof -
  from assms(1) obtain corrs st1 where r: "analyze_rhs_classes R rhs st = Inr (corrs, st1)"
    by (auto simp: record_shape_def split: sum.splits)
  have t: "typemap st1 = typemap st" using rhs_typemap[OF r] .
  show ?thesis
    using assms r t
    by (auto simp: record_shape_def print_def split: option.splits if_splits
        dest!: size_loop_non_array[where x = x])
qed

lemma analyze_inst_non_array:
  assumes "analyze_inst R i st = Inr (g, st')" "non_array (typemap st x)"
  shows "non_array (typemap st' x)"
proof (cases i)
  case (Assign rhs lhs)
  from assms(1) obtain st0 where t: "record_tables lhs rhs st = Inr st0"
    by (auto simp: Assign analyze_assign_def split: sum.splits)
  have tm: "typemap st0 = typemap st" using record_tables_typemap[OF t] .
  show ?thesis
    using assms t tm
    by (auto simp: Assign analyze_assign_def split: sum.splits bool.splits
        dest: record_shape_non_array[where x = x])
next
  case (OtherInst s)
  then show ?thesis using assms by simp
qed

lemma analyze_inst_pass:
  assumes "passes_through st i" "analyze_inst R i st = Inr (g, st')"
  shows "g = []"
proof (cases i)
  case (Assign rhs lhs)
  from assms(2) obtain st0 where t: "record_tables lhs rhs st = Inr st0"
    by (auto simp: Assign analyze_assign_def split: sum.splits)
  have tm: "typemap st0 = typemap st" using record_tables_typemap[OF t] .
  have "isarray st0 lhs = Inr False"
    using assms(1) by (auto simp: Assign passes_through_def non_array_def isarray_def lookup_def tm
        split: option.splits pytype.splits)
  then show ?thesis using assms(2) t by (simp add: Assign analyze_assign_def)
next
  case (OtherInst s)
  then show ?thesis using assms by simp
qed

lemma passes_through_step:
  "analyze_inst R i st = Inr (g, st') \<Longrightarrow> passes_through st j \<Longrightarrow> passes_through st' j"
  by (cases j) (auto simp: passes_through_def dest: analyze_inst_non_array)

lemma block_loop_trace:
  "block_loop R body out st
     = (case block_trace R body st of Inl e \<Rightarrow> Inl e
        | Inr (gens, st') \<Rightarrow> Inr (out @ interleave body gens, st'))"
  by (induction body arbitrary: out st)
     (auto simp: interleave_def split: sum.splits prod.splits)

lemma block_trace_length:
  "block_trace R body st = Inr (gens, st') \<Longrightarrow> length gens = length body"
  by (induction body arbitrary: gens st) (auto split: sum.splits prod.splits)

lemma subseq_interleave:
  "length gens = length body \<Longrightarrow> subseq body (interleave body gens)"
proof (induction body arbitrary: gens)
  case Nil
  then show ?case by (simp add: interleave_def)
next
  case (Cons i body)
  then obtain g gs where g: "gens = g # gs" by (cases gens) auto
  have "subseq body (interleave body gs)" using Cons g by simp
  then have "subseq body (g @ interleave body gs)" by (rule list_emb_append2)
  then show ?case by (simp add: g interleave_def)
qed

lemma block_trace_pass:
  "block_trace R body st = Inr (gens, st') \<Longrightarrow> k < length body \<Longrightarrow>
   passes_through st (body ! k) \<Longrightarrow> gens ! k = []"
proof (induction body arbitrary: gens st k)
  case Nil
  then show ?case by simp
next
  case (Cons i body)
  from Cons.prems(1) obtain g st1 gs where
    a: "analyze_inst R i st = Inr (g, st1)" and b: "block_trace R body st1 = Inr (gs, st')"
    and c: "gens = g # gs"
    by (auto split: sum.splits prod.splits)
  show ?case
  proof (cases k)
    case 0
    then show ?thesis using Cons.prems(3) analyze_inst_pass[OF _ a] c by simp
  next
    case (Suc j)
    have "passes_through st1 (body ! j)"
      using passes_through_step[OF a] Cons.prems(3) Suc by simp
    then show ?thesis using Cons.IH[OF b, of j] Cons.prems(2) Suc c by simp
  qed
qed

lemma analyze_block_trace:
  "analyze_block R body st
     = (case block_trace R body st of Inl e \<Rightarrow> Inl e
        | Inr (gens, st') \<Rightarrow> Inr (interleave body gens, st'))"
  by (simp add: analyze_block_def block_loop_trace split: sum.splits prod.splits)

text \<open>
  C10.  The body that \<open>_analyze_block\<close> builds is the original body with, after each
  instruction, the instructions \<open>_analyze_inst\<close> returned for it: the original
  instructions are all there, unchanged and in their order.  An instruction that is no
  assignment, and an assignment whose target is not array-typed, is followed by nothing.
  (When an instruction raises, the block's body is not replaced at all.)
\<close>

theorem block_spec:
  "analyze_block R body st
     = (case block_trace R body st of Inl e \<Rightarrow> Inl e
        | Inr (gens, st') \<Rightarrow> Inr (interleave body gens, st')) \<and>
   (block_trace R body st = Inr (gens, st') \<longrightarrow>
      length gens = length body \<and> subseq body (interleave body gens) \<and>
      (\<forall>k < length body. passes_through st (body ! k) \<longrightarrow> gens ! k = []))"
proof (intro conjI impI allI)
  show "analyze_block R body st
     = (case block_trace R body st of Inl e \<Rightarrow> Inl e
        | Inr (gens, st') \<Rightarrow> Inr (interleave body gens, st'))"
    by (rule analyze_block_trace)
next
  assume t: "block_trace R body st = Inr (gens, st')"
  show l: "length gens = length body" by (rule block_trace_length[OF t])
  show "subseq body (interleave body gens)" by (rule subseq_interleave[OF l])
  fix k assume "k < length body" "passes_through st (body ! k)"
  then show "gens ! k = []" by (rule block_trace_pass[OF t])
qed


theorem block_spec_witness:
  "map_sum id fst (block_trace np_regs block_ex (init block_types))
     = Inr [size_nodes ''a'' 0 ''a_sh_attr0.0'' ''$consta0.1'' ''asize0.2'', [], []] \<and>
   passes_through (init block_types) (block_ex ! 1) \<and>
   passes_through (init block_types) (block_ex ! 2) \<and>
   map_sum id fst (analyze_block np_regs block_ex (init block_types))
     = Inr ([Assign (Arg ''a'') ''a'']
            @ size_nodes ''a'' 0 ''a_sh_attr0.0'' ''$consta0.1'' ''asize0.2''
            @ [OtherInst ''return'', Assign (Const (CInt 3)) ''n'']) \<and>
   subseq block_ex
     ([Assign (Arg ''a'') ''a'']
      @ size_nodes ''a'' 0 ''a_sh_attr0.0'' ''$consta0.1'' ''asize0.2''
      @ [OtherInst ''return'', Assign (Const (CInt 3)) ''n''])"
proof -
  define G where "G = [size_nodes ''a'' 0 ''a_sh_attr0.0'' ''$consta0.1'' ''asize0.2'', [], []]"
  define S where "S = snd (projr (block_trace np_regs block_ex (init block_types)))"
  have t: "block_trace np_regs block_ex (init block_types) = Inr (G, S)"
    unfolding G_def S_def
    by (simp add: block_ex_def block_types_def run_defs size_nodes_def)
  have p: "passes_through (init block_types) (block_ex ! 1)"
    "passes_through (init block_types) (block_ex ! 2)"
    by (simp_all add: passes_through_def block_ex_def block_types_def init_def non_array_def)
  have i: "interleave block_ex G = [Assign (Arg ''a'') ''a'']
            @ size_nodes ''a'' 0 ''a_sh_attr0.0'' ''$consta0.1'' ''asize0.2''
            @ [OtherInst ''return'', Assign (Const (CInt 3)) ''n'']"
    by (simp add: interleave_def block_ex_def G_def)
  note th = block_spec [of np_regs block_ex "init block_types" G S]
  have a: "analyze_block np_regs block_ex (init block_types) = Inr (interleave block_ex G, S)"
    using th t by simp
  have s: "subseq block_ex (interleave block_ex G)"
    using th t by blast
  show ?thesis
    using t p a s unfolding i by (simp add: G_def)
qed

subsection \<open>Class -1 never gets a size-table entry\<close>

text \<open>Every entry is written under a freshly allocated class or under a class that was
  tested against \<open>-1\<close> (line 117), so a completed run leaves \<open>-1\<close> without an entry.\<close>

lemma uu_init: "unknown_unbacked (init tm)"
  by (simp add: unknown_unbacked_def init_def)

lemma uu_merge: "unknown_unbacked st \<Longrightarrow> unknown_unbacked (snd (merge_classes c1 c2 st))"
  by (cases "c1 = c2") (auto simp: merge_same merge_diff unknown_unbacked_def)

lemma uu_bc_inner: "unknown_unbacked st \<Longrightarrow> unknown_unbacked (snd (bc_inner i es c st))"
proof (induction es arbitrary: c st)
  case Nil
  then show ?case by simp
next
  case (Cons e es)
  show ?case
    using Cons.IH Cons.prems uu_merge[of st c "e ! i"]
    by (auto split: prod.splits)
qed

lemma uu_bc_outer: "unknown_unbacked st \<Longrightarrow> unknown_unbacked (snd (bc_outer eqs is out st))"
proof (induction "is" arbitrary: out st)
  case Nil
  then show ?case by simp
next
  case (Cons i "is")
  show ?case
    using Cons.IH Cons.prems uu_bc_inner[of st i eqs "hd eqs ! i"]
    by (auto split: prod.splits)
qed

lemma uu_broadcast:
  "broadcast_and_match_shapes args st = Inr (r, st') \<Longrightarrow> unknown_unbacked st \<Longrightarrow> unknown_unbacked st'"
  using uu_bc_outer
  by (auto simp: broadcast_and_match_shapes_def split: sum.splits if_splits) (metis snd_conv)

lemma uu_shape_loop:
  "shape_loop a is out st = Inr (r, st') \<Longrightarrow> unknown_unbacked st \<Longrightarrow> unknown_unbacked st'"
proof (induction "is" arbitrary: out st)
  case Nil
  then show ?case by simp
next
  case (Cons i "is")
  from Cons.prems(1) obtain item where
    l: "shape_loop a is (out @ [next_eq_class st])
          (st\<lparr>next_eq_class := next_eq_class st + 1,
              class_sizes := (class_sizes st)(next_eq_class st \<mapsto> [item])\<rparr>) = Inr (r, st')"
    by (auto simp: get_next_class_def split: sum.splits)
  have "unknown_unbacked (st\<lparr>next_eq_class := next_eq_class st + 1,
              class_sizes := (class_sizes st)(next_eq_class st \<mapsto> [item])\<rparr>)"
    using Cons.prems(2) by (auto simp: unknown_unbacked_def)
  then show ?case using Cons.IH[OF l] by simp
qed

lemma uu_classes_from_shape:
  "get_classes_from_shape a st = Inr (r, st') \<Longrightarrow> unknown_unbacked st \<Longrightarrow> unknown_unbacked st'"
  by (auto simp: get_classes_from_shape_def get_next_class_def split: sum.splits pytype.splits
      dest: uu_shape_loop)

lemma uu_add_corr_loop:
  "add_corr_loop v k st = Inr st' \<Longrightarrow> unknown_unbacked st \<Longrightarrow> unknown_unbacked st'"
proof (induction k arbitrary: st)
  case 0
  then show ?case by simp
next
  case (Suc k)
  from Suc.prems(1) obtain l where
    l: "add_corr_loop v k
          (st\<lparr>next_eq_class := next_eq_class st + 1,
              array_shape_classes := (array_shape_classes st)(v \<mapsto> l @ [next_eq_class st])\<rparr>) = Inr st'"
    by (auto simp: get_next_class_def split: sum.splits)
  have "unknown_unbacked (st\<lparr>next_eq_class := next_eq_class st + 1,
              array_shape_classes := (array_shape_classes st)(v \<mapsto> l @ [next_eq_class st])\<rparr>)"
    using Suc.prems(2) by (auto simp: unknown_unbacked_def)
  then show ?case using Suc.IH[OF l] by simp
qed

lemma uu_add_array_corr:
  "add_array_corr v st = Inr (r, st') \<Longrightarrow> unknown_unbacked st \<Longrightarrow> unknown_unbacked st'"
proof -
  assume a: "add_array_corr v st = Inr (r, st')" and u: "unknown_unbacked st"
  have u1: "unknown_unbacked (st\<lparr>array_shape_classes := (array_shape_classes st)(v \<mapsto> [])\<rparr>)"
    using u by (simp add: unknown_unbacked_def)
  from a obtain n where
    "add_corr_loop v n (st\<lparr>array_shape_classes := (array_shape_classes st)(v \<mapsto> [])\<rparr>) = Inr st'"
    by (auto simp: add_array_corr_def Let_def split: sum.splits pytype.splits if_splits)
  then show ?thesis using uu_add_corr_loop u1 by blast
qed

lemma uu_dot:
  "analyze_dot args st = Inr (r, st') \<Longrightarrow> unknown_unbacked st \<Longrightarrow> unknown_unbacked st'"
  using uu_merge
  by (auto simp: analyze_dot_def split: sum.splits prod.splits if_splits) (metis snd_conv)+

lemma uu_print: "unknown_unbacked (print m st) = unknown_unbacked st"
  by (simp add: unknown_unbacked_def print_def)

lemma uu_np_call:
  "analyze_np_call R name args st = Inr (r, st') \<Longrightarrow> unknown_unbacked st \<Longrightarrow> unknown_unbacked st'"
  by (auto simp: analyze_np_call_def uu_print split: sum.splits if_splits
      dest: uu_classes_from_shape uu_dot uu_broadcast)

lemma uu_call:
  "analyze_call R func vargs st = Inr (r, st') \<Longrightarrow> unknown_unbacked st \<Longrightarrow> unknown_unbacked st'"
  by (auto simp: analyze_call_def Let_def split: sum.splits if_splits option.splits prod.splits
      dest: uu_np_call)

lemma uu_rhs:
  "analyze_rhs_classes R rhs st = Inr (r, st') \<Longrightarrow> unknown_unbacked st \<Longrightarrow> unknown_unbacked st'"
proof (induction R rhs st rule: analyze_rhs_classes.induct)
qed (auto simp: no_rule_expr_def no_rule_node_def uu_print
      split: sum.splits if_splits bool.splits
      dest: uu_add_array_corr uu_broadcast uu_call uu_np_call)


lemma uu_record_tables:
  "record_tables lhs rhs st = Inr st' \<Longrightarrow> unknown_unbacked st \<Longrightarrow> unknown_unbacked st'"
  by (auto simp: record_tables_def Let_def unknown_unbacked_def
      split: node.splits expr.splits pyconst.splits option.splits if_splits sum.splits bool.splits)

lemma uu_size_step:
  "size_step lhs i c st = Inr (g, st') \<Longrightarrow> unknown_unbacked st \<Longrightarrow> unknown_unbacked st'"
  by (auto simp: size_step_def gen_size_call_def mk_unique_var_def set_size_var_def Let_def
      unknown_unbacked_def split: sum.splits if_splits inst.splits prod.splits)

lemma uu_size_loop:
  "size_loop lhs ics acc st = Inr (g, st') \<Longrightarrow> unknown_unbacked st \<Longrightarrow> unknown_unbacked st'"
proof (induction ics arbitrary: acc st)
  case Nil
  then show ?case by simp
next
  case (Cons ic ics)
  obtain i c where ic: "ic = (i, c)" by (cases ic)
  from Cons.prems(1) obtain nodes st1 where
    s: "size_step lhs i c st = Inr (nodes, st1)"
    and l: "size_loop lhs ics (acc @ nodes) st1 = Inr (g, st')"
    by (auto simp: ic split: sum.splits)
  show ?case using Cons.IH[OF l] uu_size_step[OF s Cons.prems(2)] by simp
qed

lemma uu_record_shape:
  assumes "record_shape R lhs rhs st = Inr (g, st')" "unknown_unbacked st"
  shows "unknown_unbacked st'"
proof -
  from assms(1) obtain corrs st1 where r: "analyze_rhs_classes R rhs st = Inr (corrs, st1)"
    by (auto simp: record_shape_def split: sum.splits)
  have u1: "unknown_unbacked st1" using uu_rhs[OF r assms(2)] .
  have u2: "unknown_unbacked (st1\<lparr>array_shape_classes := x, array_size_vars := y\<rparr>)" for x y
    using u1 by (simp add: unknown_unbacked_def)
  show ?thesis
    using assms(1) r u2
    by (auto simp: record_shape_def uu_print split: option.splits if_splits dest: uu_size_loop)
qed

lemma uu_inst:
  assumes "analyze_inst R i st = Inr (g, st')" "unknown_unbacked st"
  shows "unknown_unbacked st'"
proof (cases i)
  case (Assign rhs lhs)
  from assms(1) obtain st0 where t: "record_tables lhs rhs st = Inr st0"
    by (auto simp: Assign analyze_assign_def split: sum.splits)
  have u0: "unknown_unbacked st0" using uu_record_tables[OF t assms(2)] .
  show ?thesis
    using assms(1) t u0
    by (auto simp: Assign analyze_assign_def split: sum.splits bool.splits dest: uu_record_shape)
next
  case (OtherInst s)
  then show ?thesis using assms by simp
qed

lemma uu_block_loop:
  "block_loop R body out st = Inr (r, st') \<Longrightarrow> unknown_unbacked st \<Longrightarrow> unknown_unbacked st'"
proof (induction body arbitrary: out st)
  case Nil
  then show ?case by simp
next
  case (Cons i body)
  from Cons.prems(1) obtain g st1 where
    a: "analyze_inst R i st = Inr (g, st1)"
    and b: "block_loop R body (out @ [i] @ g) st1 = Inr (r, st')"
    by (auto split: sum.splits)
  show ?case using Cons.IH[OF b] uu_inst[OF a Cons.prems(2)] by simp
qed

lemma uu_run_loop:
  "run_loop R blocks done st = Inr (r, st') \<Longrightarrow> unknown_unbacked st \<Longrightarrow> unknown_unbacked st'"
proof (induction blocks arbitrary: "done" st)
  case Nil
  then show ?case by simp
next
  case (Cons kb blocks)
  obtain key body where kb: "kb = (key, body)" by (cases kb)
  from Cons.prems(1) obtain out st1 where
    a: "block_loop R body [] st = Inr (out, st1)"
    and b: "run_loop R blocks (done @ [(key, out)]) st1 = Inr (r, st')"
    by (auto simp: kb analyze_block_def split: sum.splits)
  show ?case using Cons.IH[OF b] uu_block_loop[OF a Cons.prems(2)] by simp
qed

lemma run_unknown_unbacked:
  "run R blocks (init tm) = Inr (r, st') \<Longrightarrow> class_sizes st' (- 1) = None"
  using uu_run_loop[of R blocks "[]" "init tm" r st'] uu_init[of tm]
  by (simp add: run_def unknown_unbacked_def)

subsection \<open>An entry without a representative\<close>

lemmas bc_defs = analyze_np_call_def np_regs_def broadcast_and_match_shapes_def
      max_len_def pad_def merge_diff reps_def rename_class_def numeral_2_eq_2

text \<open>
  C4.  After \<open>a = arg; at = a.T\<close> the shapes are \<open>[1, 2]\<close> and \<open>[2, 1]\<close>, and both
  classes have a size variable.  For \<open>c = a + at\<close> the resolver works on copies of the
  shapes: index 0 merges 1 and 2 into class 3, index 1 merges the stale 2 and 1 again
  into class 4, whose entry is the empty list.  The shape \<open>[3, 4]\<close> is recorded without
  conflict; at dimension 1 the walk finds an entry for class 4, emits nothing, and line
  123 reads the first element of the empty entry: the assignment raises \<open>IndexError\<close>
  instead of giving the dimension a size variable.
\<close>

theorem empty_entry_raises:
  "table_after (run np_regs [(0, transpose_prog)] (init transpose_types))
     (\<lambda>st. (array_shape_classes st ''a'', array_shape_classes st ''at'',
            class_sizes st 1, class_sizes st 2))
     = Inr (Some [1, 2], Some [2, 1], Some [SVar ''asize0.2''], Some [SVar ''asize1.5'']) \<and>
   (case run np_regs [(0, transpose_prog)] (init transpose_types) of
      Inl e \<Rightarrow> Inl e
    | Inr (b, st) \<Rightarrow>
        map_sum id fst (analyze_rhs_classes np_regs (Expr (Binop ''+'' ''a'' ''at'')) st))
     = Inr [3, 4] \<and>
   (case run np_regs [(0, transpose_prog)] (init transpose_types) of
      Inl e \<Rightarrow> Inl e
    | Inr (b, st) \<Rightarrow>
        table_after (analyze_rhs_classes np_regs (Expr (Binop ''+'' ''a'' ''at'')) st)
          (\<lambda>st. (class_sizes st 3, class_sizes st 4, array_shape_classes st ''c'')))
     = Inr (Some [SVar ''asize0.2'', SVar ''asize1.5''], Some [], None) \<and>
   run np_regs [(0, transpose_prog @ [add_transpose])] (init transpose_types) = Inl IndexError"
  by (simp add: table_after_def add_transpose_def transpose_prog_def transpose_types_def
      run_defs bc_defs)

subsection \<open>Right-hand sides without a rule\<close>

lemma no_rule_node_eq:
  "no_rule_node st = Inr ([], st\<lparr>stdout := stdout st @ [''can't find shape classes for node'']\<rparr>)"
  by (simp add: no_rule_node_def print_def)

lemma no_rule_expr_eq:
  "no_rule_expr opname st
     = Inr ([], st\<lparr>stdout := stdout st @ [''can't find shape classes for expr of op '' @ opname,
                                          ''can't find shape classes for node'']\<rparr>)"
  by (simp add: no_rule_expr_def print_def)

lemma no_rule_cases:
  "has_no_rule R st rhs \<Longrightarrow>
   analyze_rhs_classes R rhs st = no_rule_node st \<or>
   (\<exists>opname. analyze_rhs_classes R rhs st = no_rule_expr opname st)"
proof (cases rhs)
  case (Expr e)
  assume h: "has_no_rule R st rhs"
  show ?thesis
  proof (cases e)
    case (Getattr v attr)
    then show ?thesis using h Expr
      by (auto simp: isarray_def lookup_def split: option.splits pytype.splits)
  qed (use h Expr in auto)
qed auto

lemma no_rule_rhs:
  assumes "has_no_rule R st rhs"
  shows "\<exists>msgs. msgs \<noteq> [] \<and> analyze_rhs_classes R rhs st = Inr ([], st\<lparr>stdout := stdout st @ msgs\<rparr>)"
proof -
  from no_rule_cases[OF assms] show ?thesis
  proof
    assume "analyze_rhs_classes R rhs st = no_rule_node st"
    then have "analyze_rhs_classes R rhs st
       = Inr ([], st\<lparr>stdout := stdout st @ [''can't find shape classes for node'']\<rparr>)"
      by (simp only: no_rule_node_eq)
    then show ?thesis by blast
  next
    assume "\<exists>opname. analyze_rhs_classes R rhs st = no_rule_expr opname st"
    then obtain opname where "analyze_rhs_classes R rhs st = no_rule_expr opname st" by blast
    then have "analyze_rhs_classes R rhs st
       = Inr ([], st\<lparr>stdout := stdout st @ [''can't find shape classes for expr of op '' @ opname,
                                          ''can't find shape classes for node'']\<rparr>)"
      by (simp only: no_rule_expr_eq)
    then show ?thesis by blast
  qed
qed


lemma record_tables_no_rule:
  assumes "has_no_rule R st rhs" "named_global rhs"
  shows "\<exists>st0. record_tables lhs rhs st = Inr st0 \<and> typemap st0 = typemap st \<and>
           array_shape_classes st0 = array_shape_classes st"
proof (cases rhs)
  case (Expr e)
  show ?thesis
  proof (cases e)
    case (Getattr v attr)
    then show ?thesis using assms Expr
      by (auto simp: record_tables_def isarray_def lookup_def split: option.splits pytype.splits)
  qed (use assms Expr in \<open>auto simp: record_tables_def\<close>)
next
  case (Global g)
  then show ?thesis using assms
    by (auto simp: record_tables_def named_global_def Let_def)
next
  case (Const c)
  then show ?thesis by (cases c) (auto simp: record_tables_def)
qed (use assms in \<open>auto simp: record_tables_def\<close>)

lemma has_no_rule_typemap:
  "typemap st0 = typemap st \<Longrightarrow> has_no_rule R st0 rhs = has_no_rule R st rhs"
proof (cases rhs)
  case (Expr e)
  assume "typemap st0 = typemap st"
  then show ?thesis using Expr by (cases e) auto
qed auto

lemma assign_no_rule:
  assumes nr: "has_no_rule R st rhs" and ng: "named_global rhs"
    and t: "typemap st lhs = Some (Array n)"
  shows "\<exists>st'. analyze_assign R rhs lhs st = Inr ([], st') \<and>
           array_shape_classes st' lhs
             = Some (replicate (length (recorded_shape st lhs)) (- 1))"
proof -
  obtain st0 where r: "record_tables lhs rhs st = Inr st0" and tm: "typemap st0 = typemap st"
    and sh: "array_shape_classes st0 = array_shape_classes st"
    using record_tables_no_rule[OF nr ng] by blast
  have ia: "isarray st0 lhs = Inr True" using t tm by (simp add: isarray_def lookup_def)
  have nr0: "has_no_rule R st0 rhs" using nr has_no_rule_typemap[OF tm] by simp
  obtain msgs where a: "analyze_rhs_classes R rhs st0 = Inr ([], st0\<lparr>stdout := stdout st0 @ msgs\<rparr>)"
    using no_rule_rhs[OF nr0] by blast
  define st1 where "st1 = st0\<lparr>stdout := stdout st0 @ msgs\<rparr>"
  have sh1: "array_shape_classes st1 = array_shape_classes st" by (simp add: st1_def sh)
  have e: "analyze_assign R rhs lhs st = record_shape R lhs rhs st0"
    using analyze_assign_array[OF r ia] .
  show ?thesis
  proof (cases "array_shape_classes st lhs")
    case None
    then show ?thesis
      using e a sh1 by (simp add: record_shape_def st1_def recorded_shape_def)
  next
    case (Some old)
    show ?thesis
    proof (cases "old = []")
      case True
      then show ?thesis
        using e a sh1 Some by (simp add: record_shape_def st1_def recorded_shape_def)
    next
      case False
      then show ?thesis
        using e a sh1 Some by (simp add: record_shape_def st1_def recorded_shape_def print_def)
    qed
  qed
qed

lemma interleave_Cons: "interleave (i # body) (g # gs) = i # g @ interleave body gs"
  by (simp add: interleave_def)

lemma scan_continues:
  assumes "analyze_inst R i st = Inr (g, st')"
  shows "analyze_block R (i # body) st = then_scan R i g body st'"
  using assms
  by (simp add: analyze_block_trace then_scan_def interleave_Cons split: sum.splits prod.splits)

lemma call_unknown_name:
  assumes "registered_as st func name" "unknown_name R name"
  shows "analyze_rhs_classes R (Expr (Call func vargs)) st
     = Inr ([- 1], print (''unknown numpy call: '' @ name) st)"
proof -
  have u: "name \<notin> set named_rules" "name \<notin> set (UFUNC_MAP_OP R)" "name \<noteq> ''NULL''"
    using assms(2) by (simp_all add: unknown_name_def)
  from assms(1) have m: "func \<notin> set (map_calls st)" by (simp add: registered_as_def)
  from assms(1) consider "numpy_calls st func = Some name"
    | arr where "numpy_calls st func = None" "array_attr_calls st func = Some (name, arr)"
    by (auto simp: registered_as_def)
  then show ?thesis
  proof cases
    case 1
    then show ?thesis using m u by (simp add: analyze_call_def np_call_unknown)
  next
    case 2
    then show ?thesis using m u by (simp add: analyze_call_def np_call_unknown)
  qed
qed

lemma call_unregistered:
  "unregistered st func \<Longrightarrow> analyze_rhs_classes R (Expr (Call func vargs)) st = Inl AssertionError"
  by (simp add: unregistered_def analyze_call_def)

lemma assign_call:
  "analyze_assign R (Expr (Call func vargs)) lhs st
     = (case isarray st lhs of Inl e \<Rightarrow> Inl e
        | Inr False \<Rightarrow> Inr ([], st)
        | Inr True \<Rightarrow> record_shape R lhs (Expr (Call func vargs)) st)"
  by (simp add: analyze_assign_def record_tables_def)

lemma assign_unknown_name:
  assumes "registered_as st func name" "unknown_name R name" "typemap st lhs = Some (Array n)"
  shows "\<exists>g st'. analyze_assign R (Expr (Call func vargs)) lhs st = Inr (g, st')"
proof -
  define st1 where "st1 = print (''unknown numpy call: '' @ name) st"
  have a: "analyze_rhs_classes R (Expr (Call func vargs)) st = Inr ([- 1], st1)"
    using call_unknown_name[OF assms(1,2)] by (simp add: st1_def)
  have ia: "isarray st lhs = Inr True" using assms(3) by (simp add: isarray_def lookup_def)
  have e: "analyze_assign R (Expr (Call func vargs)) lhs st
           = record_shape R lhs (Expr (Call func vargs)) st"
    using ia by (simp add: assign_call)
  have rn: "reps_nonempty st1 [- 1]" by (simp add: reps_nonempty_def)
  obtain gens st' where
    l: "size_loop lhs (enumerate 0 [- 1]) [] (recorded st1 lhs [- 1]) = Inr (concat gens, st')"
    using size_loop_recorded[OF rn] by blast
  show ?thesis
  proof (cases "array_shape_classes st1 lhs = None \<or> array_shape_classes st1 lhs = Some [- 1]")
    case True
    then show ?thesis using e record_shape_no_conflict[OF a True] l by simp
  next
    case False
    then obtain old where o: "array_shape_classes st1 lhs = Some old" "old \<noteq> [- 1]" by auto
    show ?thesis using e record_shape_conflict[OF a o] by simp
  qed
qed

lemma block_loop_append:
  "block_loop R (b1 @ b2) out st
     = (case block_loop R b1 out st of Inl e \<Rightarrow> Inl e
        | Inr (o1, st1) \<Rightarrow> block_loop R b2 o1 st1)"
  by (induction b1 arbitrary: out st) (auto split: sum.splits prod.splits)

lemma run_loop_append:
  "run_loop R (bs1 @ bs2) done st
     = (case run_loop R bs1 done st of Inl e \<Rightarrow> Inl e
        | Inr (d1, st1) \<Rightarrow> run_loop R bs2 d1 st1)"
proof (induction bs1 arbitrary: "done" st)
  case Nil
  then show ?case by simp
next
  case (Cons kb bs1)
  obtain key body where kb: "kb = (key, body)" by (cases kb)
  show ?case using Cons.IH by (auto simp: kb split: sum.splits prod.splits)
qed

lemma run_aborts:
  assumes r: "run R blocks1 st = Inr (d, st1)"
    and b: "analyze_block R body1 st1 = Inr (o1, st2)"
    and t: "typemap st2 x = Some (Array n)" and u: "unregistered st2 g"
  shows "run R (blocks1 @ (key, body1 @ Assign (Expr (Call g vargs)) x # body2) # blocks2) st
           = Inl AssertionError"
proof -
  have ia: "isarray st2 x = Inr True" using t by (simp add: isarray_def lookup_def)
  have i: "analyze_inst R (Assign (Expr (Call g vargs)) x) st2 = Inl AssertionError"
    using ia call_unregistered[OF u, of R vargs]
    by (simp add: assign_call record_shape_def)
  have bl: "analyze_block R (body1 @ Assign (Expr (Call g vargs)) x # body2) st1 = Inl AssertionError"
    using b i by (simp add: analyze_block_def block_loop_append)
  show ?thesis
    using r bl by (simp add: run_def run_loop_append)
qed


text \<open>
  C6 (as amended).  For a right-hand side without a rule, shape inference returns the
  empty shape and prints a diagnostic.  Assigned to an array-typed target (the global,
  if it is one, having a name), it generates nothing and does not raise; the target's
  recorded shape becomes \<open>-1\<close> in every dimension it had before, the empty shape if it
  had none; and the scan goes on with the next instruction.  A call whose target is in
  the numpy-call or the array-method registry (and is no map call), under a name with
  no rule that is no ufunc, yields \<open>[-1]\<close> and a diagnostic; assigned to an array-typed
  target it does not raise, and the scan goes on.  A call whose target is in no
  registry raises \<open>AssertionError\<close>, and a run that reaches such a call assigned to an
  array-typed target ends with that error.
\<close>

theorem unsupported_spec:
  "(has_no_rule R st rhs \<longrightarrow>
      (\<exists>msgs. msgs \<noteq> [] \<and>
         analyze_rhs_classes R rhs st = Inr ([], st\<lparr>stdout := stdout st @ msgs\<rparr>)) \<and>
      (named_global rhs \<longrightarrow> typemap st lhs = Some (Array n) \<longrightarrow>
         (\<exists>st'. analyze_assign R rhs lhs st = Inr ([], st') \<and>
                array_shape_classes st' lhs
                  = Some (replicate (length (recorded_shape st lhs)) (- 1)) \<and>
                analyze_block R (Assign rhs lhs # body) st
                  = then_scan R (Assign rhs lhs) [] body st'))) \<and>
   (registered_as st func name \<longrightarrow> unknown_name R name \<longrightarrow>
      analyze_rhs_classes R (Expr (Call func vargs)) st
        = Inr ([- 1], print (''unknown numpy call: '' @ name) st) \<and>
      (typemap st lhs = Some (Array n) \<longrightarrow>
         (\<exists>g st'. analyze_assign R (Expr (Call func vargs)) lhs st = Inr (g, st') \<and>
                  analyze_block R (Assign (Expr (Call func vargs)) lhs # body) st
                    = then_scan R (Assign (Expr (Call func vargs)) lhs) g body st'))) \<and>
   (unregistered st func \<longrightarrow>
      analyze_rhs_classes R (Expr (Call func vargs)) st = Inl AssertionError) \<and>
   (run R blocks1 st = Inr (d, st1) \<longrightarrow> analyze_block R body1 st1 = Inr (o1, st2) \<longrightarrow>
    typemap st2 lhs = Some (Array n) \<longrightarrow> unregistered st2 func \<longrightarrow>
      run R (blocks1 @ (key, body1 @ Assign (Expr (Call func vargs)) lhs # body2) # blocks2) st
        = Inl AssertionError)"
proof (intro conjI impI)
  assume "has_no_rule R st rhs"
  then show "\<exists>msgs. msgs \<noteq> [] \<and>
         analyze_rhs_classes R rhs st = Inr ([], st\<lparr>stdout := stdout st @ msgs\<rparr>)"
    by (rule no_rule_rhs)
next
  assume h: "has_no_rule R st rhs" "named_global rhs" "typemap st lhs = Some (Array n)"
  obtain st' where a: "analyze_assign R rhs lhs st = Inr ([], st')"
    and s: "array_shape_classes st' lhs = Some (replicate (length (recorded_shape st lhs)) (- 1))"
    using assign_no_rule[OF h] by blast
  have "analyze_block R (Assign rhs lhs # body) st = then_scan R (Assign rhs lhs) [] body st'"
    by (rule scan_continues) (simp add: a)
  then show "\<exists>st'. analyze_assign R rhs lhs st = Inr ([], st') \<and>
                array_shape_classes st' lhs
                  = Some (replicate (length (recorded_shape st lhs)) (- 1)) \<and>
                analyze_block R (Assign rhs lhs # body) st
                  = then_scan R (Assign rhs lhs) [] body st'"
    using a s by blast
next
  assume h: "registered_as st func name" "unknown_name R name"
  show "analyze_rhs_classes R (Expr (Call func vargs)) st
        = Inr ([- 1], print (''unknown numpy call: '' @ name) st)"
    by (rule call_unknown_name[OF h])
next
  assume h: "registered_as st func name" "unknown_name R name" "typemap st lhs = Some (Array n)"
  obtain g st' where a: "analyze_assign R (Expr (Call func vargs)) lhs st = Inr (g, st')"
    using assign_unknown_name[OF h] by blast
  have "analyze_block R (Assign (Expr (Call func vargs)) lhs # body) st
          = then_scan R (Assign (Expr (Call func vargs)) lhs) g body st'"
    by (rule scan_continues) (simp add: a)
  then show "\<exists>g st'. analyze_assign R (Expr (Call func vargs)) lhs st = Inr (g, st') \<and>
                  analyze_block R (Assign (Expr (Call func vargs)) lhs # body) st
                    = then_scan R (Assign (Expr (Call func vargs)) lhs) g body st'"
    using a by blast
next
  assume "unregistered st func"
  then show "analyze_rhs_classes R (Expr (Call func vargs)) st = Inl AssertionError"
    by (rule call_unregistered)
next
  assume "run R blocks1 st = Inr (d, st1)" "analyze_block R body1 st1 = Inr (o1, st2)"
    "typemap st2 lhs = Some (Array n)" "unregistered st2 func"
  then show "run R (blocks1 @ (key, body1 @ Assign (Expr (Call func vargs)) lhs # body2) # blocks2) st
        = Inl AssertionError"
    by (rule run_aborts)
qed

theorem unsupported_spec_witness:
  "has_no_rule np_regs unsupported_ex (Expr (Binop ''@'' ''a'' ''a'')) \<and>
   named_global (Expr (Binop ''@'' ''a'' ''a'')) \<and>
   typemap unsupported_ex ''x'' = Some (Array 1) \<and>
   registered_as unsupported_ex ''f'' ''foo'' \<and> unknown_name np_regs ''foo'' \<and>
   unregistered unsupported_ex ''g'' \<and>
   run np_regs [] unsupported_ex = Inr ([], unsupported_ex) \<and>
   analyze_block np_regs [] unsupported_ex = Inr ([], unsupported_ex) \<and>
   map_sum id fst (analyze_rhs_classes np_regs (Expr (Binop ''@'' ''a'' ''a'')) unsupported_ex) = Inr [] \<and>
   map_sum id (\<lambda>r. (fst r, array_shape_classes (snd r) ''x''))
     (analyze_assign np_regs (Expr (Binop ''@'' ''a'' ''a'')) ''x'' unsupported_ex)
     = Inr ([], Some []) \<and>
   map_sum id fst (analyze_rhs_classes np_regs (Expr (Call ''f'' [''a''])) unsupported_ex) = Inr [- 1] \<and>
   isl (analyze_assign np_regs (Expr (Call ''f'' [''a''])) ''x'' unsupported_ex) = False \<and>
   analyze_rhs_classes np_regs (Expr (Call ''g'' [''a''])) unsupported_ex = Inl AssertionError \<and>
   run np_regs [(0, [Assign (Expr (Call ''g'' [''a''])) ''x'', OtherInst ''return''])] unsupported_ex
     = Inl AssertionError"
proof -
  have h: "has_no_rule np_regs unsupported_ex (Expr (Binop ''@'' ''a'' ''a''))"
    "named_global (Expr (Binop ''@'' ''a'' ''a''))"
    "typemap unsupported_ex ''x'' = Some (Array 1)"
    "registered_as unsupported_ex ''f'' ''foo''" "unknown_name np_regs ''foo''"
    "unregistered unsupported_ex ''g''"
    "run np_regs [] unsupported_ex = Inr ([], unsupported_ex)"
    "analyze_block np_regs [] unsupported_ex = Inr ([], unsupported_ex)"
    by (simp_all add: np_regs_def named_global_def unsupported_ex_def init_def call_ex_types_def
        registered_as_def unknown_name_def named_rules_def unregistered_def run_def
        analyze_block_def)
  have rs: "recorded_shape unsupported_ex ''x'' = []"
    by (simp add: recorded_shape_def unsupported_ex_def init_def)
  note th = unsupported_spec [where R = np_regs and st = unsupported_ex
      and rhs = "Expr (Binop ''@'' ''a'' ''a'')" and lhs = "''x''" and n = 1 and body = "[]"
      and func = "''f''" and name = "''foo''" and vargs = "[''a'']"]
  note th2 = unsupported_spec [where R = np_regs and st = unsupported_ex
      and rhs = "Expr (Binop ''@'' ''a'' ''a'')" and lhs = "''x''" and n = 1 and body = "[]"
      and func = "''g''" and name = "''foo''" and vargs = "[''a'']"
      and ?blocks1.0 = "[]" and d = "[]" and ?st1.0 = unsupported_ex and ?body1.0 = "[]"
      and ?o1.0 = "[]" and ?st2.0 = unsupported_ex and key = 0
      and ?body2.0 = "[OtherInst ''return'']" and ?blocks2.0 = "[]"]
  obtain msgs where m: "analyze_rhs_classes np_regs (Expr (Binop ''@'' ''a'' ''a'')) unsupported_ex
       = Inr ([], unsupported_ex\<lparr>stdout := stdout unsupported_ex @ msgs\<rparr>)"
    using th h by blast
  have a: "map_sum id fst (analyze_rhs_classes np_regs (Expr (Binop ''@'' ''a'' ''a'')) unsupported_ex) = Inr []"
    unfolding m by simp
  obtain st' where as: "analyze_assign np_regs (Expr (Binop ''@'' ''a'' ''a'')) ''x'' unsupported_ex
       = Inr ([], st')"
    and sh: "array_shape_classes st' ''x''
       = Some (replicate (length (recorded_shape unsupported_ex ''x'')) (- 1))"
    using th h by blast
  have b: "map_sum id (\<lambda>r. (fst r, array_shape_classes (snd r) ''x''))
     (analyze_assign np_regs (Expr (Binop ''@'' ''a'' ''a'')) ''x'' unsupported_ex) = Inr ([], Some [])"
    unfolding as by (simp add: sh rs)
  have cl: "analyze_rhs_classes np_regs (Expr (Call ''f'' [''a''])) unsupported_ex
       = Inr ([- 1], print (''unknown numpy call: '' @ ''foo'') unsupported_ex)"
    using th h by blast
  have c: "map_sum id fst (analyze_rhs_classes np_regs (Expr (Call ''f'' [''a''])) unsupported_ex) = Inr [- 1]"
    unfolding cl by simp
  obtain g st'' where ac: "analyze_assign np_regs (Expr (Call ''f'' [''a''])) ''x'' unsupported_ex
       = Inr (g, st'')"
    using th h by blast
  have d: "isl (analyze_assign np_regs (Expr (Call ''f'' [''a''])) ''x'' unsupported_ex) = False"
    unfolding ac by simp
  have e: "analyze_rhs_classes np_regs (Expr (Call ''g'' [''a''])) unsupported_ex = Inl AssertionError"
    using th2 h by blast
  have f: "run np_regs [(0, [Assign (Expr (Call ''g'' [''a''])) ''x'', OtherInst ''return''])] unsupported_ex
     = Inl AssertionError"
    using th2 h by (metis append_Nil)
  show ?thesis using h a b c d e f by blast
qed

end
